theory Spec2Isabelle
  imports Complex_Main
begin

section \<open>JavaScript strings and insertion-ordered objects\<close>

text \<open>
  The analyser (\<^verbatim>\<open>bin/cli.js\<close>) works on the text that git and grep print. A string is a
  list of characters; the model covers ASCII text: \<^verbatim>\<open>toLowerCase\<close> maps A..Z to a..z and
  leaves every other character alone, and the white space of \<^verbatim>\<open>trim\<close> and of the regular
  expression class \<^verbatim>\<open>\s\<close> is space, tab, line feed, vertical tab, form feed and carriage
  return.
\<close>

definition is_space :: "char \<Rightarrow> bool" where
  "is_space c = (c \<in> set [CHR '' '', CHR 0x09, CHR 0x0A, CHR 0x0B, CHR 0x0C, CHR 0x0D])"

definition js_trim :: "string \<Rightarrow> string" where
  "js_trim s = rev (dropWhile is_space (rev (dropWhile is_space s)))"

definition lower_char :: "char \<Rightarrow> char" where
  "lower_char c =
     (case map_of (zip ''ABCDEFGHIJKLMNOPQRSTUVWXYZ'' ''abcdefghijklmnopqrstuvwxyz'') c of
        Some d \<Rightarrow> d
      | None \<Rightarrow> c)"

definition toLowerCase :: "string \<Rightarrow> string" where
  "toLowerCase s = map lower_char s"

definition startsWith :: "string \<Rightarrow> string \<Rightarrow> bool" where
  "startsWith s p = (take (length p) s = p)"

definition endsWith :: "string \<Rightarrow> string \<Rightarrow> bool" where
  "endsWith s p = (length p \<le> length s \<and> drop (length s - length p) s = p)"

text \<open>\<^verbatim>\<open>s.includes(p)\<close>: \<open>p\<close> occurs in \<open>s\<close> as a contiguous substring.\<close>

fun str_includes :: "string \<Rightarrow> string \<Rightarrow> bool" where
  "str_includes [] p = (p = [])"
| "str_includes (c # cs) p = (startsWith (c # cs) p \<or> str_includes cs p)"

text \<open>\<^verbatim>\<open>s.split('\n')\<close>; the empty string splits into one empty line.\<close>

fun split_nl :: "string \<Rightarrow> string list" where
  "split_nl [] = [[]]"
| "split_nl (c # cs) =
     (case split_nl cs of
        [] \<Rightarrow> [[c]]
      | l # ls \<Rightarrow> if c = CHR 0x0A then [] # l # ls else (c # l) # ls)"

text \<open>
  The helper \<^verbatim>\<open>git(cmd)\<close>: the trimmed output of the command, or the empty string when
  \<^verbatim>\<open>execSync\<close> throws. The outcome of a child process is a \<open>string option\<close>, \<open>None\<close> for
  a call that throws (tool missing, non-zero status, time-out).
\<close>

definition git :: "string option \<Rightarrow> string" where
  "git out = (case out of None \<Rightarrow> [] | Some s \<Rightarrow> js_trim s)"

text \<open>\<^verbatim>\<open>text.split('\n').filter(l => l.trim())\<close>\<close>

definition nonblank_lines :: "string \<Rightarrow> string list" where
  "nonblank_lines s = filter (\<lambda>l. js_trim l \<noteq> []) (split_nl s)"

text \<open>
  \<^verbatim>\<open>Math.round((c / t) * 100)\<close> for counts \<open>c\<close> and \<open>t > 0\<close>. \<^verbatim>\<open>Math.round\<close> takes the nearest
  integer and rounds a half up. The quotient and the product are doubles, with a relative
  error below 1e-15, while \<open>100 * c / t\<close> is either exactly at a half or at least
  \<open>1 / (2 * t)\<close> away from it: for the counts that can occur the double is rounded like the
  exact value, except at an exact half, where the double may fall just below it. The
  parameter \<open>tie\<close> says, for the pair \<open>(c, t)\<close>, whether such a half is rounded up.
\<close>

definition round_pct :: "(nat \<Rightarrow> nat \<Rightarrow> bool) \<Rightarrow> nat \<Rightarrow> nat \<Rightarrow> nat" where
  "round_pct tie c t =
     (if (200 * c) mod (2 * t) = t \<and> \<not> tie c t then (100 * c) div t
      else (200 * c + t) div (2 * t))"

text \<open>
  A plain object used as a counter table, \<^verbatim>\<open>m[k] = (m[k] || 0) + 1\<close>. \<^verbatim>\<open>Object.entries\<close>
  lists string keys in insertion order, so the table is an association list: a key that is
  already present is incremented in place, a new one is appended. (The keys counted here
  are file paths ending in a source suffix and extensions starting with a dot, never
  array indices, which JavaScript would list first.)
\<close>

fun bump :: "string \<Rightarrow> (string \<times> nat) list \<Rightarrow> (string \<times> nat) list" where
  "bump k [] = [(k, 1)]"
| "bump k ((k', n) # es) = (if k = k' then (k', n + 1) # es else (k', n) # bump k es)"

text \<open>
  \<^verbatim>\<open>entries.sort((a, b) => b[1] - a[1])\<close>: descending by count. \<^verbatim>\<open>Array.prototype.sort\<close> is
  stable (ECMAScript 2019, Node 11 and later; the README asks for Node 18), as is the
  insertion sort behind \<^const>\<open>sort_key\<close>.
\<close>

definition sort_desc :: "(string \<times> nat) list \<Rightarrow> (string \<times> nat) list" where
  "sort_desc es = sort_key (\<lambda>e. - int (snd e)) es"

section \<open>Node's \<^verbatim>\<open>path\<close> helpers (POSIX)\<close>

text \<open>
  \<^verbatim>\<open>path.basename(p)\<close>: trailing slashes are dropped, then the last component is taken.
\<close>

definition basename :: "string \<Rightarrow> string" where
  "basename p = rev (takeWhile (\<lambda>c. c \<noteq> CHR ''/'') (dropWhile (\<lambda>c. c = CHR ''/'') (rev p)))"

text \<open>
  \<^verbatim>\<open>path.extname(p)\<close>: from the last dot of the last component to its end; empty when that
  component has no dot, when its last dot is its first character, or when it is \<^verbatim>\<open>..\<close>.
\<close>

definition extname :: "string \<Rightarrow> string" where
  "extname p =
     (let b = basename p;
          suf = rev (takeWhile (\<lambda>c. c \<noteq> CHR ''.'') (rev b));
          pre = rev (tl (dropWhile (\<lambda>c. c \<noteq> CHR ''.'') (rev b)))
      in if CHR ''.'' \<notin> set b \<or> pre = [] \<or> b = ''..'' then [] else CHR ''.'' # suf)"

section \<open>File churn\<close>

text \<open>
  \<^verbatim>\<open>fileChurnRaw.split('\n').forEach(file => { if (file.trim() && (file.endsWith('.js') || ...))
  fileChurnMap[file] = (fileChurnMap[file] || 0) + 1 })\<close>
\<close>

definition churn_source :: "string \<Rightarrow> bool" where
  "churn_source f =
     (js_trim f \<noteq> [] \<and>
      (endsWith f ''.js'' \<or> endsWith f ''.ts'' \<or> endsWith f ''.tsx'' \<or> endsWith f ''.vue'' \<or>
       endsWith f ''.py'' \<or> endsWith f ''.go'' \<or> endsWith f ''.rs'' \<or> endsWith f ''.java''))"

definition fileChurnMap :: "string list \<Rightarrow> (string \<times> nat) list" where
  "fileChurnMap lines = foldl (\<lambda>m f. if churn_source f then bump f m else m) [] lines"

text \<open>
  One ranked entry, \<^verbatim>\<open>{ file: path.basename(file), fullPath: file, changes: count }\<close>
  (\<open>file\<close> is a reserved word of Isabelle, hence \<open>fileName\<close>).
\<close>

record churn_record =
  fileName :: string
  fullPath :: string
  changes :: nat

definition topFiles :: "string list \<Rightarrow> churn_record list" where
  "topFiles lines =
     map (\<lambda>(f, count). \<lparr>fileName = basename f, fullPath = f, changes = count\<rparr>)
       (take 15 (sort_desc (fileChurnMap lines)))"

text \<open>Position of the first occurrence of a path in the event sequence.\<close>

definition first_seen :: "string list \<Rightarrow> string \<Rightarrow> nat" where
  "first_seen lines p = length (takeWhile (\<lambda>l. l \<noteq> p) lines)"

section \<open>Contributors\<close>

text \<open>
  \<^verbatim>\<open>git('shortlog -sn --all').split('\n').filter(l => l.trim()).slice(0, 10).map(line => {
    const match = line.trim().match(/^\s*(\d+)\s+(.+)$/);
    return match ? { commits: parseInt(match[1]), name: match[2] } : null; }).filter(Boolean)\<close>
\<close>

record contributor_raw =
  commits :: nat
  name :: string

definition is_digit :: "char \<Rightarrow> bool" where
  "is_digit c = (c \<in> set ''0123456789'')"

definition digit_val :: "char \<Rightarrow> nat" where
  "digit_val c = length (takeWhile (\<lambda>d. d \<noteq> c) ''0123456789'')"

definition parseInt :: "string \<Rightarrow> nat" where
  "parseInt ds = foldl (\<lambda>n c. 10 * n + digit_val c) 0 ds"

text \<open>
  The line is trimmed before it is matched, so it does not end in white space: the digits,
  the white space after them and the rest of the line are the only way to match. The dot
  of \<^verbatim>\<open>(.+)\<close> does not match a line terminator.
\<close>

definition shortlog_line :: "string \<Rightarrow> contributor_raw option" where
  "shortlog_line line =
     (let t = dropWhile is_space (js_trim line);
          ds = takeWhile is_digit t;
          r = dropWhile is_digit t;
          nm = dropWhile is_space r
      in if ds \<noteq> [] \<and> takeWhile is_space r \<noteq> [] \<and> nm \<noteq> [] \<and>
            CHR 0x0A \<notin> set nm \<and> CHR 0x0D \<notin> set nm
         then Some \<lparr>commits = parseInt ds, name = nm\<rparr>
         else None)"

definition contributorsRaw :: "string option \<Rightarrow> contributor_raw list" where
  "contributorsRaw shortlog = List.map_filter shortlog_line (take 10 (nonblank_lines (git shortlog)))"

text \<open>The seven radar categories and their commit-message keywords (\<^verbatim>\<open>commitCategories\<close>).\<close>

datatype category = Frontend | Backend | Database | Auth | Devops | Testing | Docs

definition categories :: "category list" where
  "categories = [Frontend, Backend, Database, Auth, Devops, Testing, Docs]"

fun patterns :: "category \<Rightarrow> string list" where
  "patterns Frontend =
     [''component'', ''ui'', ''style'', ''css'', ''layout'', ''modal'', ''button'', ''form'', ''page'']"
| "patterns Backend =
     [''api'', ''server'', ''handler'', ''controller'', ''route'', ''endpoint'', ''service'']"
| "patterns Database =
     [''database'', ''db'', ''schema'', ''model'', ''migration'', ''query'', ''prisma'']"
| "patterns Auth =
     [''auth'', ''login'', ''signup'', ''session'', ''jwt'', ''oauth'', ''password'', ''security'']"
| "patterns Devops =
     [''ci'', ''cd'', ''docker'', ''deploy'', ''build'', ''workflow'', ''pipeline'', ''config'']"
| "patterns Testing = [''test'', ''spec'', ''jest'', ''vitest'', ''cypress'', ''e2e'']"
| "patterns Docs = [''doc'', ''readme'', ''changelog'', ''comment'', ''md'']"

text \<open>\<^verbatim>\<open>categoryBreakdown[cat]++\<close>\<close>

definition inc :: "category \<Rightarrow> (category \<Rightarrow> nat) \<Rightarrow> (category \<Rightarrow> nat)" where
  "inc cat cb = cb(cat := cb cat + 1)"

text \<open>A commit line of \<^verbatim>\<open>git log --oneline\<close>: \<^verbatim>\<open>line.match(/^[a-f0-9]+\s/)\<close>.\<close>

definition is_hex :: "char \<Rightarrow> bool" where
  "is_hex c = (c \<in> set ''abcdef0123456789'')"

definition is_commit_line :: "string \<Rightarrow> bool" where
  "is_commit_line line =
     (takeWhile is_hex line \<noteq> [] \<and>
      (case dropWhile is_hex line of [] \<Rightarrow> False | c # _ \<Rightarrow> is_space c))"

text \<open>Every category with a keyword in the lowercased commit line is incremented.\<close>

definition message_step :: "string \<Rightarrow> (category \<Rightarrow> nat) \<Rightarrow> (category \<Rightarrow> nat)" where
  "message_step currentCommitMsg cb =
     foldl (\<lambda>b cat. if \<exists>p \<in> set (patterns cat). str_includes currentCommitMsg p then inc cat b else b)
       cb categories"

text \<open>The seven independent tests on a changed file's lowercased path and extension.\<close>

definition path_step :: "string \<Rightarrow> string \<Rightarrow> (category \<Rightarrow> nat) \<Rightarrow> (category \<Rightarrow> nat)" where
  "path_step f ext cb =
     (let has = str_includes f;
          b1 = (if has ''component'' \<or> has ''/ui/'' \<or>
                   ext \<in> set [''.vue'', ''.tsx'', ''.jsx'', ''.svelte'', ''.css'', ''.scss'']
                then inc Frontend cb else cb);
          b2 = (if has ''/api/'' \<or> has ''server'' \<or> has ''handler'' then inc Backend b1 else b1);
          b3 = (if has ''schema'' \<or> has ''model'' \<or> has ''migration'' \<or> has ''prisma''
                then inc Database b2 else b2);
          b4 = (if has ''auth'' \<or> has ''login'' \<or> has ''security'' then inc Auth b3 else b3);
          b5 = (if has ''docker'' \<or> has ''ci'' \<or> has ''workflow'' \<or> ext \<in> set [''.yml'', ''.yaml'']
                then inc Devops b4 else b4);
          b6 = (if has ''test'' \<or> has ''spec'' \<or> has ''.test.'' \<or> has ''.spec.''
                then inc Testing b5 else b5);
          b7 = (if ext \<in> set [''.md'', ''.mdx'', ''.txt''] \<or> has ''readme'' \<or> has ''doc''
                then inc Docs b6 else b6)
      in b7)"

text \<open>
  One line of \<^verbatim>\<open>git log --author=... --oneline --name-only\<close>. The accumulator is the pair
  (\<^verbatim>\<open>filesTouched\<close>, \<^verbatim>\<open>categoryBreakdown\<close>). The tally of directory names
  (\<^verbatim>\<open>areasTouched\<close>, \<^verbatim>\<open>topAreas\<close>, \<^verbatim>\<open>expertise\<close>) is a separate table that nothing below
  reads; it is not part of this development.
\<close>

definition history_step ::
  "(string \<times> nat) list \<times> (category \<Rightarrow> nat) \<Rightarrow> string \<Rightarrow> (string \<times> nat) list \<times> (category \<Rightarrow> nat)" where
  "history_step acc line =
     (case acc of (filesTouched, categoryBreakdown) \<Rightarrow>
        if is_commit_line line then (filesTouched, message_step (toLowerCase line) categoryBreakdown)
        else if js_trim line \<noteq> [] then
          (let f = toLowerCase line; ext = toLowerCase (extname f)
           in ((if ext \<noteq> [] then bump ext filesTouched else filesTouched),
               path_step f ext categoryBreakdown))
        else acc)"

definition history :: "string \<Rightarrow> (string \<times> nat) list \<times> (category \<Rightarrow> nat)" where
  "history commitLog = foldl history_step ([], \<lambda>cat. 0) (nonblank_lines commitLog)"

text \<open>\<^verbatim>\<open>filesTouched['.vue'] || filesTouched['.tsx']\<close> in a condition.\<close>

definition touched :: "(string \<times> nat) list \<Rightarrow> string \<Rightarrow> bool" where
  "touched filesTouched ext = (case map_of filesTouched ext of None \<Rightarrow> False | Some n \<Rightarrow> n \<noteq> 0)"

definition focus_of :: "(string \<times> nat) list \<Rightarrow> string" where
  "focus_of filesTouched =
     (case sort_desc filesTouched of
        [] \<Rightarrow> ''general''
      | (topExt, _) # _ \<Rightarrow>
          if topExt \<in> set [''.vue'', ''.tsx'', ''.jsx'', ''.svelte'', ''.css'', ''.scss''] then ''frontend''
          else if topExt \<in> set [''.py'', ''.go'', ''.rs'', ''.java''] then ''backend''
          else if topExt \<in> set [''.ts'', ''.js''] then
            (if touched filesTouched ''.vue'' \<or> touched filesTouched ''.tsx''
             then ''frontend'' else ''fullstack'')
          else if topExt \<in> set [''.md'', ''.mdx'', ''.txt''] then ''docs''
          else if topExt \<in> set [''.yml'', ''.yaml'', ''.json''] then ''config/devops''
          else ''general'')"

text \<open>
  The most-touched extension as the specification words it: the first entry of the table,
  in insertion order, whose count is maximal.
\<close>

definition top_entry :: "(string \<times> nat) list \<Rightarrow> (string \<times> nat) option" where
  "top_entry es = List.find (\<lambda>e. \<forall>e' \<in> set es. snd e' \<le> snd e) es"

text \<open>
  \<^verbatim>\<open>totalCatHits = Object.values(categoryBreakdown).reduce((a, b) => a + b, 0) || 1\<close> and
  \<^verbatim>\<open>radarData[cat] = Math.round((categoryBreakdown[cat] / totalCatHits) * 100)\<close>
\<close>

definition totalCatHits :: "(category \<Rightarrow> nat) \<Rightarrow> nat" where
  "totalCatHits cb = (let s = sum_list (map cb categories) in if s = 0 then 1 else s)"

definition radar :: "(nat \<Rightarrow> nat \<Rightarrow> bool) \<Rightarrow> (category \<Rightarrow> nat) \<Rightarrow> (category \<Rightarrow> nat)" where
  "radar tie cb = (\<lambda>cat. round_pct tie (cb cat) (totalCatHits cb))"

record contributor = contributor_raw +
  focus :: string
  categoryBreakdown :: "category \<Rightarrow> nat"
  radarData :: "category \<Rightarrow> nat"

text \<open>
  The analysis of one contributor, given the outcome of the \<^verbatim>\<open>git log\<close> for that author.
\<close>

definition analyse :: "(nat \<Rightarrow> nat \<Rightarrow> bool) \<Rightarrow> contributor_raw \<Rightarrow> string option \<Rightarrow> contributor" where
  "analyse tie c authorLog =
     (case history (git authorLog) of (filesTouched, cb) \<Rightarrow>
        \<lparr>commits = commits c, name = name c,
         focus = focus_of filesTouched, categoryBreakdown = cb, radarData = radar tie cb\<rparr>)"

definition contributors ::
  "(nat \<Rightarrow> nat \<Rightarrow> bool) \<Rightarrow> string option \<Rightarrow> (string \<Rightarrow> string option) \<Rightarrow> contributor list" where
  "contributors tie shortlog authorLog =
     map (\<lambda>c. analyse tie c (authorLog (name c))) (contributorsRaw shortlog)"

section \<open>Dead-code detection\<close>

text \<open>
  \<^verbatim>\<open>path.basename(f, path.extname(f))\<close>: the extension is empty or a proper suffix of the last
  component, and \<^verbatim>\<open>basename\<close> cuts it off.
\<close>

definition basename_noext :: "string \<Rightarrow> string" where
  "basename_noext p = (let b = basename p in take (length b - length (extname p)) b)"

text \<open>
  \<^verbatim>\<open>componentName.replace(/([A-Z])/g, '-$1').toLowerCase().replace(/^-/, '')\<close>
\<close>

definition is_upper :: "char \<Rightarrow> bool" where
  "is_upper c = (c \<in> set ''ABCDEFGHIJKLMNOPQRSTUVWXYZ'')"

definition kebab :: "string \<Rightarrow> string" where
  "kebab componentName =
     (case toLowerCase (concat (map (\<lambda>c. if is_upper c then [CHR ''-'', c] else [c]) componentName)) of
        [] \<Rightarrow> []
      | c # cs \<Rightarrow> if c = CHR ''-'' then cs else c # cs)"

text \<open>
  A finding carries the path relative to the repository and the file's base name
  (\<^verbatim>\<open>{ path: relative, file: filename }\<close>); components and exports add their name.
  \<^verbatim>\<open>path.relative(repoPath, f)\<close> depends on the working directory of the process; it is the
  parameter \<open>relative\<close> of the scans.
\<close>

record finding =
  path :: string
  file_name :: string

record unused_component = finding +
  component :: string

record unused_export = finding +
  exported :: string

text \<open>
  The body of \<^verbatim>\<open>componentFiles.forEach\<close>: index files, pages and layouts are skipped; a
  component is pushed when neither its name nor its kebab-case form occurs in \<^verbatim>\<open>allUsages\<close>.
\<close>

definition component_step ::
  "(string \<Rightarrow> string) \<Rightarrow> string \<Rightarrow> unused_component list \<Rightarrow> string \<Rightarrow> unused_component list" where
  "component_step relative allUsages acc f =
     (let rel = relative f; filename = basename f; componentName = basename_noext f
      in if toLowerCase componentName = ''index'' then acc
         else if str_includes rel ''/pages/'' then acc
         else if str_includes rel ''/layouts/'' then acc
         else if \<not> str_includes allUsages componentName \<and> \<not> str_includes allUsages (kebab componentName)
              then acc @ [\<lparr>path = rel, file_name = filename, component = componentName\<rparr>]
              else acc)"

text \<open>
  The whole step: when the \<^verbatim>\<open>find\<close> throws the list stays empty; when the \<^verbatim>\<open>grep\<close> that
  builds the usage index throws, the index is the empty string.
\<close>

definition unusedComponents ::
  "(string \<Rightarrow> string) \<Rightarrow> string option \<Rightarrow> string option \<Rightarrow> unused_component list" where
  "unusedComponents relative findOut grepOut =
     (case findOut of
        None \<Rightarrow> []
      | Some out \<Rightarrow>
          (let componentFiles = nonblank_lines out;
               allUsages = (case grepOut of None \<Rightarrow> [] | Some u \<Rightarrow> u)
           in take 25 (foldl (component_step relative allUsages) [] componentFiles)))"

text \<open>
  The condition of the specification for a candidate file \<open>f\<close>: it passes the skip-list and
  neither its component name nor the kebab-case form of that name occurs in the usage
  index; and the finding reported for \<open>f\<close>.
\<close>

definition unused_candidate :: "(string \<Rightarrow> string) \<Rightarrow> string \<Rightarrow> string \<Rightarrow> bool" where
  "unused_candidate relative allUsages f =
     (toLowerCase (basename_noext f) \<noteq> ''index'' \<and>
      \<not> str_includes (relative f) ''/pages/'' \<and> \<not> str_includes (relative f) ''/layouts/'' \<and>
      \<not> str_includes allUsages (basename_noext f) \<and>
      \<not> str_includes allUsages (kebab (basename_noext f)))"

definition component_finding :: "(string \<Rightarrow> string) \<Rightarrow> string \<Rightarrow> unused_component" where
  "component_finding relative f =
     \<lparr>path = relative f, file_name = basename f, component = basename_noext f\<rparr>"

text \<open>
  \<^verbatim>\<open>/export\s+(const|function|class)\s+(\w+)/\<close> tried at the start of a string: the matched text
  and the captured name.
\<close>

definition is_word :: "char \<Rightarrow> bool" where
  "is_word c =
     (c \<in> set ''abcdefghijklmnopqrstuvwxyzABCDEFGHIJKLMNOPQRSTUVWXYZ0123456789_'')"

definition export_at :: "string \<Rightarrow> (string \<times> string) option" where
  "export_at s =
     (if \<not> startsWith s ''export'' then None
      else
        (let r1 = drop 6 s; ws1 = takeWhile is_space r1; r2 = dropWhile is_space r1
         in if ws1 = [] then None
            else
              (case List.find (startsWith r2) [''const'', ''function'', ''class''] of
                 None \<Rightarrow> None
               | Some kw \<Rightarrow>
                   (let r3 = drop (length kw) r2; ws2 = takeWhile is_space r3;
                        w = takeWhile is_word (dropWhile is_space r3)
                    in if ws2 = [] \<or> w = [] then None
                       else Some (''export'' @ ws1 @ kw @ ws2 @ w, w)))))"

text \<open>
  \<^verbatim>\<open>content.match(/.../g) || []\<close>: all matches from left to right, each search starting where
  the previous match ended (the first argument counts the characters still to skip).
\<close>

fun export_scan :: "nat \<Rightarrow> string \<Rightarrow> string list" where
  "export_scan k [] = []"
| "export_scan (Suc k) (c # cs) = export_scan k cs"
| "export_scan 0 (c # cs) =
     (case export_at (c # cs) of
        None \<Rightarrow> export_scan 0 cs
      | Some (m, w) \<Rightarrow> m # export_scan (length m - 1) cs)"

definition exportMatches :: "string \<Rightarrow> string list" where
  "exportMatches content = export_scan 0 content"

text \<open>\<^verbatim>\<open>exp.match(/export\s+(?:const|function|class)\s+(\w+)/)\<close>: the first match, if any.\<close>

fun export_match :: "string \<Rightarrow> string option" where
  "export_match [] = None"
| "export_match (c # cs) =
     (case export_at (c # cs) of None \<Rightarrow> export_match cs | Some (m, w) \<Rightarrow> Some w)"

definition export_step ::
  "string \<Rightarrow> string \<Rightarrow> string \<Rightarrow> string \<Rightarrow> unused_export list \<Rightarrow> string \<Rightarrow> unused_export list" where
  "export_step allImports rel filename base acc expr =
     (case export_match expr of
        None \<Rightarrow> acc
      | Some exportName \<Rightarrow>
          if startsWith exportName ''use'' then acc
          else if length exportName < 4 then acc
          else if \<not> str_includes allImports exportName \<and> \<not> str_includes allImports base
               then acc @ [\<lparr>path = rel, file_name = filename, exported = exportName\<rparr>]
               else acc)"

text \<open>
  One file of the export scan; \<open>readFile\<close> is \<^verbatim>\<open>fs.readFileSync\<close>, \<open>None\<close> when it throws
  (the \<^verbatim>\<open>try\<close> around the file then pushes nothing).
\<close>

definition export_file_step ::
  "(string \<Rightarrow> string) \<Rightarrow> (string \<Rightarrow> string option) \<Rightarrow> string \<Rightarrow>
   unused_export list \<Rightarrow> string \<Rightarrow> unused_export list" where
  "export_file_step relative readFile allImports acc f =
     (let rel = relative f; filename = basename f; base = basename_noext f
      in if toLowerCase base \<in> set [''index'', ''main'', ''app'', ''server'', ''cli'', ''config'',
                                   ''env'', ''types'', ''constants'']
         then acc
         else
           (case readFile f of
              None \<Rightarrow> acc
            | Some content \<Rightarrow>
                foldl (export_step allImports rel filename base) acc (take 5 (exportMatches content))))"

definition unusedExports ::
  "(string \<Rightarrow> string) \<Rightarrow> (string \<Rightarrow> string option) \<Rightarrow> string option \<Rightarrow> string option \<Rightarrow>
   unused_export list" where
  "unusedExports relative readFile findOut grepOut =
     (case findOut of
        None \<Rightarrow> []
      | Some out \<Rightarrow>
          (let tsFiles = nonblank_lines out;
               allImports = (case grepOut of None \<Rightarrow> [] | Some t \<Rightarrow> t)
           in take 20 (foldl (export_file_step relative readFile allImports) [] (take 30 tsFiles))))"

definition orphan_step :: "(string \<Rightarrow> string) \<Rightarrow> string \<Rightarrow> finding list \<Rightarrow> string \<Rightarrow> finding list" where
  "orphan_step relative allRefs acc f =
     (let rel = relative f; base = basename_noext f; filename = basename f
      in if toLowerCase base \<in> set [''index'', ''main'', ''app'', ''server'', ''env'', ''config'',
                                   ''types'', ''utils'']
         then acc
         else if startsWith base ''_'' then acc
         else if \<not> str_includes allRefs base then acc @ [\<lparr>path = rel, file_name = filename\<rparr>]
         else acc)"

definition unusedFiles :: "(string \<Rightarrow> string) \<Rightarrow> string option \<Rightarrow> string option \<Rightarrow> finding list" where
  "unusedFiles relative findOut grepOut =
     (case findOut of
        None \<Rightarrow> []
      | Some out \<Rightarrow>
          (let srcFiles = nonblank_lines out;
               allRefs = (case grepOut of None \<Rightarrow> [] | Some t \<Rightarrow> t)
           in take 20 (foldl (orphan_step relative allRefs) [] srcFiles)))"

section \<open>Compliance indicators and score\<close>

datatype indicator =
  AgeVerification | ContentModeration | IdentityVerification | ReportingMechanism
  | RecordKeeping | UserSafety | PaymentCompliance

text \<open>
  \<^verbatim>\<open>{ found: false, files: [], notes: [] }\<close> (\<open>notes\<close> is a reserved word of Isabelle, hence
  \<open>item_notes\<close>).
\<close>

record indicator_state =
  found :: bool
  files :: "string list"
  item_notes :: "string list"

text \<open>The checklist of \<^verbatim>\<open>generateSecurityCompliance\<close>, in its order.\<close>

definition complianceItems :: "indicator list" where
  "complianceItems =
     [AgeVerification, ContentModeration, IdentityVerification, ReportingMechanism,
      RecordKeeping, UserSafety, PaymentCompliance]"

text \<open>The path fragments that attribute a matched file to an indicator.\<close>

fun stems :: "indicator \<Rightarrow> string list" where
  "stems AgeVerification = [''age'', ''sumsub'', ''onfido'', ''birth'']"
| "stems ContentModeration = [''moderat'', ''nsfw'', ''safety'']"
| "stems IdentityVerification = [''kyc'', ''identity'', ''verif'']"
| "stems ReportingMechanism = [''report'', ''flag'', ''abuse'']"
| "stems RecordKeeping = [''2257'', ''record'']"
| "stems UserSafety = [''block'', ''mute'', ''2fa'', ''otp'', ''security'']"
| "stems PaymentCompliance = [''stripe'', ''payout'', ''payment'', ''chargeback'']"

definition attributed :: "indicator \<Rightarrow> string \<Rightarrow> bool" where
  "attributed k f = (\<exists>s \<in> set (stems k). str_includes (toLowerCase f) s)"

text \<open>
  One of the seven \<^verbatim>\<open>if\<close> statements: \<^verbatim>\<open>found = true\<close>, and the relative path is pushed
  unless it is already listed.
\<close>

definition attribute ::
  "string \<Rightarrow> string \<Rightarrow> (indicator \<Rightarrow> indicator_state) \<Rightarrow> indicator \<Rightarrow> (indicator \<Rightarrow> indicator_state)" where
  "attribute f relFile c k =
     (if attributed k f
      then c(k := (c k)\<lparr>found := True,
                        files := (if relFile \<in> set (files (c k)) then files (c k)
                                  else files (c k) @ [relFile])\<rparr>)
      else c)"

definition compliance_file ::
  "(string \<Rightarrow> string) \<Rightarrow> (indicator \<Rightarrow> indicator_state) \<Rightarrow> string \<Rightarrow> (indicator \<Rightarrow> indicator_state)" where
  "compliance_file relative c f = foldl (attribute f (relative f)) c complianceItems"

definition compliance_init :: "indicator \<Rightarrow> indicator_state" where
  "compliance_init = (\<lambda>k. \<lparr>found = False, files = [], item_notes = []\<rparr>)"

text \<open>The pass over the matched files, the SumSub note and the cap of eight evidence files.\<close>

definition compliance_of_files :: "(string \<Rightarrow> string) \<Rightarrow> string list \<Rightarrow> (indicator \<Rightarrow> indicator_state)" where
  "compliance_of_files relative fs =
     (let c = foldl (compliance_file relative) compliance_init fs;
          c' = (if \<exists>f \<in> set (files (c AgeVerification)). str_includes (toLowerCase f) ''sumsub''
                then c(AgeVerification := (c AgeVerification)
                         \<lparr>item_notes := item_notes (c AgeVerification) @
                            [''SumSub integration detected (industry-standard KYC)'']\<rparr>)
                else c)
      in (\<lambda>k. (c' k)\<lparr>files := take 8 (files (c' k))\<rparr>))"

text \<open>
  The whole step, from the outcome of the single \<^verbatim>\<open>grep -l\<close>: its trimmed output, when not
  empty, is split into the matched files; when it throws nothing is found.
\<close>

definition compliance :: "(string \<Rightarrow> string) \<Rightarrow> string option \<Rightarrow> (indicator \<Rightarrow> indicator_state)" where
  "compliance relative grepOut =
     (case grepOut of
        None \<Rightarrow> compliance_of_files relative []
      | Some out \<Rightarrow>
          (let allComplianceMatches = js_trim out
           in if allComplianceMatches \<noteq> []
              then compliance_of_files relative (nonblank_lines allComplianceMatches)
              else compliance_of_files relative []))"

text \<open>
  \<^verbatim>\<open>lib/generateHTML.js\<close>: \<^verbatim>\<open>passedChecks = complianceItems.filter(item =>
  (compliance[item.key] || {}).found).length\<close> and
  \<^verbatim>\<open>complianceScore = Math.round((passedChecks / totalChecks) * 100)\<close>
\<close>

definition passedChecks :: "(indicator \<Rightarrow> indicator_state) \<Rightarrow> nat" where
  "passedChecks c = length (filter (\<lambda>k. found (c k)) complianceItems)"

definition complianceScore :: "(nat \<Rightarrow> nat \<Rightarrow> bool) \<Rightarrow> (indicator \<Rightarrow> indicator_state) \<Rightarrow> nat" where
  "complianceScore tie c = round_pct tie (passedChecks c) (length complianceItems)"

section \<open>A run\<close>

text \<open>
  A value as \<^verbatim>\<open>JSON.parse\<close> returns it, and \<open>JUndefined\<close> for a property that is absent. A
  number is the value of the double that the literal parsed to.
\<close>

datatype json =
  JUndefined | JNull | JBool bool | JNum rat | JStr string | JArr "json list"
  | JObj "(string \<times> json) list"

text \<open>The value in a condition (\<^verbatim>\<open>x ? ... : ...\<close>, \<^verbatim>\<open>x || y\<close>).\<close>

fun truthy :: "json \<Rightarrow> bool" where
  "truthy JUndefined = False"
| "truthy JNull = False"
| "truthy (JBool b) = b"
| "truthy (JNum n) = (n \<noteq> 0)"
| "truthy (JStr s) = (s \<noteq> [])"
| "truthy (JArr xs) = True"
| "truthy (JObj kvs) = True"

text \<open>
  The value inside a template literal, \<^verbatim>\<open>`<li>${t}</li>`\<close>: the conversion to a string
  throws for an object with an own property \<^verbatim>\<open>toString\<close> (a parsed value is never callable,
  and the inherited \<^verbatim>\<open>valueOf\<close> returns the object), and for an array with such an element;
  every other value has a string.
\<close>

fun printable :: "json \<Rightarrow> bool" where
  "printable (JObj kvs) = (''toString'' \<notin> fst ` set kvs)"
| "printable (JArr xs) = (\<forall>x \<in> set xs. printable x)"
| "printable j = True"

text \<open>
  \<^verbatim>\<open>formatSummary(data.aiSummary || data.generatedSummary || ...)\<close> calls \<^verbatim>\<open>text.replace\<close>: a
  truthy \<^verbatim>\<open>aiSummary\<close> must be a string (the generated summary always is one).
\<close>

fun summary_renders :: "json \<Rightarrow> bool" where
  "summary_renders (JStr s) = True"
| "summary_renders j = (\<not> truthy j)"

text \<open>
  \<^verbatim>\<open>data.aiKeyThings ? `...${data.aiKeyThings.map(t => `<li>${t}</li>`).join('')}...` : ''\<close>
  and the same for \<^verbatim>\<open>data.aiGotchas\<close>: a truthy value must have \<^verbatim>\<open>map\<close>, that is, be an array,
  and its elements are converted to strings.
\<close>

fun list_renders :: "json \<Rightarrow> bool" where
  "list_renders (JArr xs) = (\<forall>x \<in> set xs. printable x)"
| "list_renders j = (\<not> truthy j)"

text \<open>
  The object parsed from the reply of the AI provider,
  \<^verbatim>\<open>aiData = JSON.parse(response.match(/\{[\s\S]*\}/)[0])\<close>, with the three properties that
  \<^verbatim>\<open>enhanceWithAI\<close> reads.
\<close>

record ai_data =
  summary :: json
  keyThings :: json
  gotchas :: json

text \<open>
  What the process finds around it: whether a requested clone failed, whether
  \<^verbatim>\<open>git rev-parse --git-dir\<close> succeeds in the target path, the outcome of each git, find and
  grep call of the steps above, whether a README that exists cannot be read, the object
  parsed from the AI reply (\<open>None\<close> when no provider is given, when the call fails or gives
  nothing, and when the reply holds no JSON object that parses: \<^verbatim>\<open>callAI\<close> and
  \<^verbatim>\<open>enhanceWithAI\<close> catch all of these), and whether the output directory can be written.
\<close>

record env =
  cloneFailed :: bool
  gitDir :: bool
  shortlogOut :: "string option"
  authorLogOut :: "string \<Rightarrow> string option"
  churnOut :: "string option"
  readmeUnreadable :: bool
  componentFind :: "string option"
  usageGrep :: "string option"
  tsFind :: "string option"
  importGrep :: "string option"
  readFile :: "string \<Rightarrow> string option"
  srcFind :: "string option"
  refsGrep :: "string option"
  complianceGrep :: "string option"
  relative :: "string \<Rightarrow> string"
  halfUp :: "nat \<Rightarrow> nat \<Rightarrow> bool"
  aiData :: "ai_data option"
  outputWritable :: bool

text \<open>
  The sections of \<^verbatim>\<open>data\<close> that the steps above produce, and the three properties that
  \<^verbatim>\<open>enhanceWithAI\<close> adds (absent until then). The other sections that the pages read are
  strings and arrays built by \<^verbatim>\<open>runAnalysis\<close> itself, and the issue list that
  \<^verbatim>\<open>gh issue list --json number,title\<close> prints.
\<close>

record report =
  data_contributors :: "contributor list"
  data_topFiles :: "churn_record list"
  data_unusedComponents :: "unused_component list"
  data_unusedExports :: "unused_export list"
  data_unusedFiles :: "finding list"
  data_compliance :: "indicator \<Rightarrow> indicator_state"
  data_aiSummary :: json
  data_aiKeyThings :: json
  data_aiGotchas :: json

datatype outcome = Exit nat | Throw | Value report

text \<open>The object \<^verbatim>\<open>data\<close> that \<^verbatim>\<open>runAnalysis\<close> builds.\<close>

definition data :: "env \<Rightarrow> report" where
  "data e =
     \<lparr>data_contributors = contributors (halfUp e) (shortlogOut e) (authorLogOut e),
      data_topFiles = topFiles (split_nl (git (churnOut e))),
      data_unusedComponents = unusedComponents (relative e) (componentFind e) (usageGrep e),
      data_unusedExports = unusedExports (relative e) (readFile e) (tsFind e) (importGrep e),
      data_unusedFiles = unusedFiles (relative e) (srcFind e) (refsGrep e),
      data_compliance = compliance (relative e) (complianceGrep e),
      data_aiSummary = JUndefined, data_aiKeyThings = JUndefined, data_aiGotchas = JUndefined\<rparr>"

text \<open>
  \<^verbatim>\<open>runAnalysis\<close>: \<^verbatim>\<open>process.exit(1)\<close> when the target is not a git repository. The read of
  the README is outside any \<^verbatim>\<open>try\<close>, so its exception leaves the function; every other
  step catches its own.
\<close>

definition runAnalysis :: "env \<Rightarrow> outcome" where
  "runAnalysis e =
     (if \<not> gitDir e then Exit 1
      else if readmeUnreadable e then Throw
      else Value (data e))"

text \<open>
  \<^verbatim>\<open>enhanceWithAI\<close>: the three properties of the parsed reply are copied into \<^verbatim>\<open>data\<close> as they
  are; without a parsed reply \<^verbatim>\<open>data\<close> is returned unchanged.
\<close>

definition enhanceWithAI :: "env \<Rightarrow> report \<Rightarrow> report" where
  "enhanceWithAI e d =
     (case aiData e of
        None \<Rightarrow> d
      | Some a \<Rightarrow>
          d\<lparr>data_aiSummary := summary a, data_aiKeyThings := keyThings a,
            data_aiGotchas := gotchas a\<rparr>)"

text \<open>
  \<^verbatim>\<open>generateHTML\<close> (\<^verbatim>\<open>lib/generateHTML.js\<close>) builds each page and writes it; building the first
  page throws when the summary or one of the two lists cannot be rendered.
\<close>

definition generateHTML :: "env \<Rightarrow> report \<Rightarrow> outcome" where
  "generateHTML e d =
     (if summary_renders (data_aiSummary d) \<and> list_renders (data_aiKeyThings d) \<and>
         list_renders (data_aiGotchas d) \<and> outputWritable e
      then Value d else Throw)"

text \<open>
  \<^verbatim>\<open>runWithAI\<close>: the analysis, the enhancement, \<^verbatim>\<open>fs.writeFileSync\<close> of \<^verbatim>\<open>data.json\<close>, then
  the pages; nothing here is inside a \<^verbatim>\<open>try\<close>.
\<close>

definition runWithAI :: "env \<Rightarrow> outcome" where
  "runWithAI e =
     (case runAnalysis e of
        Value d \<Rightarrow>
          (let enhancedData = enhanceWithAI e d
           in if outputWritable e then generateHTML e enhancedData else Throw)
      | r \<Rightarrow> r)"

text \<open>
  The script: the clone handler exits with status 1 when \<^verbatim>\<open>git clone\<close> throws, and
  \<^verbatim>\<open>runWithAI().catch(e => { ...; process.exit(1) })\<close> turns any exception into exit status 1.
\<close>

definition main :: "env \<Rightarrow> outcome" where
  "main e =
     (if cloneFailed e then Exit 1
      else (case runWithAI e of Throw \<Rightarrow> Exit 1 | r \<Rightarrow> r))"


section \<open>Counter tables and the stable sort\<close>

lemma bump_keys:
  "map fst (bump k m) = (if k \<in> fst ` set m then map fst m else map fst m @ [k])"
  by (induction m) force+

lemma bump_keyset: "fst ` set (bump k m) = insert k (fst ` set m)"
  using arg_cong[OF bump_keys, of set k m] by (auto simp del: set_map simp: set_map[symmetric])

lemma bump_lookup:
  "map_of (bump k m) = (map_of m)(k \<mapsto> (case map_of m k of None \<Rightarrow> 1 | Some n \<Rightarrow> n + 1))"
  by (induction m) (auto simp: fun_eq_iff)

lemma set_sort_desc: "set (sort_desc es) = set es"
  by (simp add: sort_desc_def)

lemma length_sort_desc: "length (sort_desc es) = length es"
  by (simp add: sort_desc_def)

text \<open>
  Inserting \<open>x\<close> into a list ordered by key, with ties ordered by \<open>Q\<close>, keeps that order when
  \<open>x\<close> comes \<open>Q\<close>-before everything in the list: the insertion sort is stable.
\<close>

lemma insort_tie:
  assumes "sorted_wrt (\<lambda>a b. f a \<le> f b \<and> (f a = f b \<longrightarrow> Q a b)) ys" and "\<forall>y\<in>set ys. Q x y"
  shows "sorted_wrt (\<lambda>a b. f a \<le> f b \<and> (f a = f b \<longrightarrow> Q a b)) (insort_key f x ys)"
  using assms by (induction ys) (auto simp: set_insort_key)

lemma sort_key_tie:
  "sorted_wrt Q xs \<Longrightarrow> sorted_wrt (\<lambda>a b. f a \<le> f b \<and> (f a = f b \<longrightarrow> Q a b)) (sort_key f xs)"
  by (induction xs) (auto intro: insort_tie)

lemma sort_desc_ranked:
  assumes "sorted_wrt (\<lambda>a b. g (fst a) < g (fst b)) es"
  shows "sorted_wrt (\<lambda>a b. snd b < snd a \<or> (snd a = snd b \<and> g (fst a) < g (fst b))) (sort_desc es)"
proof -
  have "sorted_wrt (\<lambda>a b. - int (snd a) \<le> - int (snd b) \<and>
          (- int (snd a) = - int (snd b) \<longrightarrow> g (fst a) < g (fst b))) (sort_desc es)"
    unfolding sort_desc_def using assms by (rule sort_key_tie)
  then show ?thesis by (rule sorted_wrt_mono_rel[rotated]) auto
qed

lemma sorted_wrt_take_drop:
  "sorted_wrt R xs \<Longrightarrow> a \<in> set (take n xs) \<Longrightarrow> b \<in> set (drop n xs) \<Longrightarrow> R a b"
  using sorted_wrt_append[of R "take n xs" "drop n xs"] by simp

section \<open>File churn: the ranking\<close>

lemma first_seen_snoc_mem: "p \<in> set ls \<Longrightarrow> first_seen (ls @ [l]) p = first_seen ls p"
  unfolding first_seen_def by (induction ls) auto

lemma first_seen_less: "p \<in> set ls \<Longrightarrow> first_seen ls p < length ls"
  unfolding first_seen_def by (induction ls) auto

lemma first_seen_snoc_new: "p \<notin> set ls \<Longrightarrow> first_seen (ls @ [p]) p = length ls"
  unfolding first_seen_def by (induction ls) auto

lemma fileChurnMap_snoc:
  "fileChurnMap (ls @ [l]) = (if churn_source l then bump l (fileChurnMap ls) else fileChurnMap ls)"
  by (simp add: fileChurnMap_def)

lemma fileChurnMap_Nil: "fileChurnMap [] = []"
  by (simp add: fileChurnMap_def)

lemma churn_keys: "fst ` set (fileChurnMap ls) = {f \<in> set ls. churn_source f}"
  by (induction ls rule: rev_induct) (auto simp: fileChurnMap_snoc fileChurnMap_Nil bump_keyset)

lemma churn_distinct: "distinct (map fst (fileChurnMap ls))"
  by (induction ls rule: rev_induct) (auto simp: fileChurnMap_snoc fileChurnMap_Nil bump_keys)

lemma churn_lookup:
  "map_of (fileChurnMap ls) p =
     (if p \<in> set ls \<and> churn_source p then Some (count_list ls p) else None)"
  by (induction ls rule: rev_induct) (auto simp: fileChurnMap_snoc fileChurnMap_Nil bump_lookup)

lemma churn_entry:
  "(p, n) \<in> set (fileChurnMap ls) \<Longrightarrow> p \<in> set ls \<and> churn_source p \<and> n = count_list ls p"
  using churn_lookup[of ls p] churn_distinct[of ls] by (auto split: if_splits)

lemma churn_size: "length (fileChurnMap ls) = card {f \<in> set ls. churn_source f}"
  using distinct_card[OF churn_distinct, of ls] churn_keys[of ls] by simp

text \<open>The table lists the counted paths in the order in which they were first seen.\<close>

lemma churn_order:
  "sorted_wrt (\<lambda>a b. first_seen ls a < first_seen ls b) (map fst (fileChurnMap ls))"
proof (induction ls rule: rev_induct)
  case Nil
  show ?case by (simp add: fileChurnMap_Nil)
next
  case (snoc l ls)
  let ?K = "map fst (fileChurnMap ls)"
  have keys: "set ?K \<subseteq> set ls" using churn_keys[of ls] by auto
  have old: "sorted_wrt (\<lambda>a b. first_seen (ls @ [l]) a < first_seen (ls @ [l]) b) ?K"
    using snoc.IH keys
    by (auto simp: sorted_wrt_iff_nth_less first_seen_snoc_mem subset_iff)
  show ?case
  proof (cases "churn_source l \<and> l \<notin> set ?K")
    case True
    then have "l \<notin> set ls" using churn_keys[of ls] by auto
    then have "\<forall>a\<in>set ?K. first_seen (ls @ [l]) a < first_seen (ls @ [l]) l"
      using keys by (auto simp: first_seen_snoc_new first_seen_snoc_mem first_seen_less)
    with old True show ?thesis
      by (simp add: fileChurnMap_snoc bump_keys sorted_wrt_append)
  next
    case False
    with old show ?thesis by (auto simp: fileChurnMap_snoc bump_keys)
  qed
qed

lemma churn_ranked:
  "sorted_wrt (\<lambda>a b. snd b < snd a \<or> (snd a = snd b \<and> first_seen ls (fst a) < first_seen ls (fst b)))
     (sort_desc (fileChurnMap ls))"
  using churn_order[of ls] by (intro sort_desc_ranked) (simp add: sorted_wrt_map)

text \<open>
  C3. For every sequence \<open>ls\<close> of lines of the modified-file log: the ranking has one record
  for each of the first fifteen counted paths (a path is counted when it ends in one of
  the eight source suffixes), at most fifteen records in all; a record's count is the
  number of occurrences of its path in \<open>ls\<close>, and it carries the path and the path's base
  name; the records are in descending order of count, and records with equal counts are in
  the order in which their paths were first seen; a counted path that is left out has a
  count no larger than any record's. The events \<^verbatim>\<open>a.js\<close>, \<^verbatim>\<open>b.js\<close>, \<^verbatim>\<open>a.js\<close> give
  \<^verbatim>\<open>a.js\<close> with count 2, then \<^verbatim>\<open>b.js\<close> with count 1.
\<close>

theorem churn_ranking:
  "length (topFiles ls) = min 15 (card {f \<in> set ls. churn_source f})
   \<and> (\<forall>r \<in> set (topFiles ls).
         fullPath r \<in> set ls \<and> churn_source (fullPath r)
         \<and> changes r = count_list ls (fullPath r)
         \<and> fileName r = basename (fullPath r))
   \<and> distinct (map fullPath (topFiles ls))
   \<and> sorted_wrt (\<lambda>a b. changes b < changes a
           \<or> (changes a = changes b \<and> first_seen ls (fullPath a) < first_seen ls (fullPath b)))
         (topFiles ls)
   \<and> (\<forall>p \<in> set ls. churn_source p \<and> p \<notin> fullPath ` set (topFiles ls) \<longrightarrow>
         (\<forall>r \<in> set (topFiles ls). count_list ls p \<le> changes r))
   \<and> topFiles [''a.js'', ''b.js'', ''a.js''] =
       [\<lparr>fileName = ''a.js'', fullPath = ''a.js'', changes = 2\<rparr>,
        \<lparr>fileName = ''b.js'', fullPath = ''b.js'', changes = 1\<rparr>]"
proof -
  let ?S = "sort_desc (fileChurnMap ls)"
  let ?mk = "\<lambda>(f, count). \<lparr>fileName = basename f, fullPath = f, changes = count\<rparr>"
  have tf: "topFiles ls = map ?mk (take 15 ?S)" by (simp add: topFiles_def)
  have len: "length (topFiles ls) = min 15 (card {f \<in> set ls. churn_source f})"
    by (simp add: tf length_sort_desc churn_size min.commute)
  have mem: "\<forall>r \<in> set (topFiles ls).
         fullPath r \<in> set ls \<and> churn_source (fullPath r)
         \<and> changes r = count_list ls (fullPath r)
         \<and> fileName r = basename (fullPath r)"
  proof
    fix r assume "r \<in> set (topFiles ls)"
    then obtain p n where r: "r = ?mk (p, n)" and "(p, n) \<in> set (take 15 ?S)"
      unfolding tf by auto
    then have "(p, n) \<in> set (fileChurnMap ls)"
      using set_take_subset[of 15 ?S] by (auto simp: set_sort_desc)
    from churn_entry[OF this] r
    show "fullPath r \<in> set ls \<and> churn_source (fullPath r)
         \<and> changes r = count_list ls (fullPath r)
         \<and> fileName r = basename (fullPath r)" by simp
  qed
  have fp: "map fullPath (topFiles ls) = take 15 (map fst ?S)"
    by (simp add: tf take_map split_def)
  have "distinct (map fst ?S)"
    using churn_distinct[of ls] by (simp add: sort_desc_def distinct_map inj_on_def)
  then have dist: "distinct (map fullPath (topFiles ls))"
    unfolding fp by (rule distinct_take)
  have srt: "sorted_wrt (\<lambda>a b. changes b < changes a
           \<or> (changes a = changes b \<and> first_seen ls (fullPath a) < first_seen ls (fullPath b)))
         (topFiles ls)"
    unfolding tf using sorted_wrt_take[OF churn_ranked[of ls], where n=15]
    by (simp add: sorted_wrt_map split_def)
  have rest: "\<forall>p \<in> set ls. churn_source p \<and> p \<notin> fullPath ` set (topFiles ls) \<longrightarrow>
         (\<forall>r \<in> set (topFiles ls). count_list ls p \<le> changes r)"
  proof (intro ballI impI)
    fix p r assume p: "p \<in> set ls" "churn_source p \<and> p \<notin> fullPath ` set (topFiles ls)"
      and "r \<in> set (topFiles ls)"
    then obtain q n where r: "r = ?mk (q, n)" and q: "(q, n) \<in> set (take 15 ?S)"
      unfolding tf by auto
    from p have "map_of (fileChurnMap ls) p = Some (count_list ls p)"
      by (simp add: churn_lookup)
    then have "(p, count_list ls p) \<in> set ?S"
      by (auto simp: set_sort_desc dest: map_of_SomeD)
    then have "(p, count_list ls p) \<in> set (take 15 ?S) \<union> set (drop 15 ?S)"
      by (simp only: set_append[symmetric] append_take_drop_id)
    moreover have "(p, count_list ls p) \<notin> set (take 15 ?S)"
      using p(2) unfolding tf by force
    ultimately have "(p, count_list ls p) \<in> set (drop 15 ?S)" by simp
    from sorted_wrt_take_drop[OF churn_ranked q this] r
    show "count_list ls p \<le> changes r" by auto
  qed
  have ex: "topFiles [''a.js'', ''b.js'', ''a.js''] =
       [\<lparr>fileName = ''a.js'', fullPath = ''a.js'', changes = 2\<rparr>,
        \<lparr>fileName = ''b.js'', fullPath = ''b.js'', changes = 1\<rparr>]"
    by code_simp
  from len mem dist srt rest ex show ?thesis by blast
qed

text \<open>
  Seventeen events over sixteen source files and a README: \<^verbatim>\<open>a.js\<close> changes twice and leads,
  the README is not counted, and the sixteenth file \<^verbatim>\<open>p.js\<close> is cut off.
\<close>

theorem churn_ranking_witness:
  "length (topFiles [''a.js'', ''README.md'', ''b.js'', ''c.ts'', ''d.js'', ''e.js'', ''f.js'', ''g.py'',
      ''h.js'', ''i.js'', ''j.js'', ''k.go'', ''l.js'', ''m.js'', ''n.js'', ''o.js'', ''a.js'', ''p.js'']) = 15
   \<and> ''p.js'' \<in> set [''a.js'', ''README.md'', ''b.js'', ''c.ts'', ''d.js'', ''e.js'', ''f.js'', ''g.py'',
      ''h.js'', ''i.js'', ''j.js'', ''k.go'', ''l.js'', ''m.js'', ''n.js'', ''o.js'', ''a.js'', ''p.js'']
   \<and> churn_source ''p.js''
   \<and> ''p.js'' \<notin> fullPath ` set (topFiles [''a.js'', ''README.md'', ''b.js'', ''c.ts'', ''d.js'', ''e.js'',
      ''f.js'', ''g.py'', ''h.js'', ''i.js'', ''j.js'', ''k.go'', ''l.js'', ''m.js'', ''n.js'', ''o.js'',
      ''a.js'', ''p.js''])
   \<and> list_all (\<lambda>r. count_list [''a.js'', ''README.md'', ''b.js'', ''c.ts'', ''d.js'', ''e.js'', ''f.js'',
      ''g.py'', ''h.js'', ''i.js'', ''j.js'', ''k.go'', ''l.js'', ''m.js'', ''n.js'', ''o.js'', ''a.js'',
      ''p.js''] ''p.js'' \<le> changes r \<and> fileName r = basename (fullPath r))
       (topFiles [''a.js'', ''README.md'', ''b.js'', ''c.ts'', ''d.js'', ''e.js'', ''f.js'',
      ''g.py'', ''h.js'', ''i.js'', ''j.js'', ''k.go'', ''l.js'', ''m.js'', ''n.js'', ''o.js'', ''a.js'',
      ''p.js''])"
proof -
  define ls where "ls = [''a.js'', ''README.md'', ''b.js'', ''c.ts'', ''d.js'', ''e.js'', ''f.js'', ''g.py'',
      ''h.js'', ''i.js'', ''j.js'', ''k.go'', ''l.js'', ''m.js'', ''n.js'', ''o.js'', ''a.js'', ''p.js'']"
  have top: "map fullPath (topFiles ls) = [''a.js'', ''b.js'', ''c.ts'', ''d.js'', ''e.js'', ''f.js'',
      ''g.py'', ''h.js'', ''i.js'', ''j.js'', ''k.go'', ''l.js'', ''m.js'', ''n.js'', ''o.js'']"
    unfolding ls_def by code_simp
  have len: "length (topFiles ls) = 15"
    using arg_cong[OF top, of length] by simp
  have mem: "''p.js'' \<in> set ls" by (simp add: ls_def)
  have src: "churn_source ''p.js''" by code_simp
  have "''p.js'' \<notin> set (map fullPath (topFiles ls))"
    unfolding top by simp
  then have out: "''p.js'' \<notin> fullPath ` set (topFiles ls)" by simp
  note R = churn_ranking[of ls]
  from R have "\<forall>p \<in> set ls. churn_source p \<and> p \<notin> fullPath ` set (topFiles ls) \<longrightarrow>
         (\<forall>r \<in> set (topFiles ls). count_list ls p \<le> changes r)" by blast
  with mem src out have low: "\<forall>r \<in> set (topFiles ls). count_list ls ''p.js'' \<le> changes r" by blast
  from R have "\<forall>r \<in> set (topFiles ls). fileName r = basename (fullPath r)" by blast
  with low have "list_all (\<lambda>r. count_list ls ''p.js'' \<le> changes r \<and> fileName r = basename (fullPath r))
       (topFiles ls)" unfolding list_all_iff by blast
  with len mem src out show ?thesis unfolding ls_def by blast
qed

section \<open>Contributors: radar profile and focus\<close>

lemma round_pct_bounds:
  assumes "0 < t"
  shows "2 * t * round_pct tie c t \<le> 200 * c + t \<and> 200 * c \<le> 2 * t * round_pct tie c t + t"
proof (cases "(200 * c) mod (2 * t) = t \<and> \<not> tie c t")
  case True
  have d: "(200 * c) div (2 * t) = (100 * c) div t"
    using div_mult_mult1[of 2 "100 * c" t] by simp
  have "2 * t * ((200 * c) div (2 * t)) + (200 * c) mod (2 * t) = 200 * c"
    by (rule mult_div_mod_eq)
  with True d have "200 * c = 2 * t * ((100 * c) div t) + t" by (simp only:)
  with True show ?thesis by (simp add: round_pct_def)
next
  case False
  let ?r = "(200 * c + t) div (2 * t)"
  have r: "round_pct tie c t = ?r" using False by (auto simp: round_pct_def)
  have e: "200 * c + t = 2 * t * ?r + (200 * c + t) mod (2 * t)"
    by (rule mult_div_mod_eq[symmetric])
  have m: "(200 * c + t) mod (2 * t) < 2 * t" using assms by simp
  have lo: "2 * t * ?r \<le> 200 * c + t" using e by linarith
  have "200 * c + t < 2 * t * ?r + 2 * t" using e m by linarith
  then have hi: "200 * c \<le> 2 * t * ?r + t" by linarith
  from lo hi r show ?thesis by simp
qed

lemma radar_sum:
  assumes "sum_list (map cb categories) \<noteq> 0"
  shows "97 \<le> sum_list (map (radar tie cb) categories) \<and> sum_list (map (radar tie cb) categories) \<le> 103"
proof -
  let ?t = "sum_list (map cb categories)"
  have t0: "0 < ?t" using assms by linarith
  have "totalCatHits cb = (if ?t = 0 then 1 else ?t)"
    unfolding totalCatHits_def Let_def by (rule refl)
  with assms have t1: "totalCatHits cb = ?t" by (simp only: if_False)
  note t = t1 t0
  note b = round_pct_bounds[OF t(2), of tie]
  define r where "r = (\<lambda>cat. round_pct tie (cb cat) ?t)"
  have rd: "radar tie cb = r" by (simp add: radar_def r_def t(1) fun_eq_iff)
  have bb: "\<And>cat. 2 * ?t * r cat \<le> 200 * cb cat + ?t \<and> 200 * cb cat \<le> 2 * ?t * r cat + ?t"
    unfolding r_def using b by blast
  define S where "S = r Frontend + r Backend + r Database + r Auth + r Devops + r Testing + r Docs"
  have tsum: "?t = cb Frontend + cb Backend + cb Database + cb Auth + cb Devops + cb Testing + cb Docs"
    by (simp add: categories_def)
  have S: "sum_list (map r categories) = S" by (simp add: categories_def S_def)
  have "2 * ?t * S = 2 * ?t * r Frontend + 2 * ?t * r Backend + 2 * ?t * r Database + 2 * ?t * r Auth
      + 2 * ?t * r Devops + 2 * ?t * r Testing + 2 * ?t * r Docs"
    unfolding S_def by (simp only: distrib_left)
  with bb[of Frontend] bb[of Backend] bb[of Database] bb[of Auth] bb[of Devops] bb[of Testing] bb[of Docs] tsum
  have "2 * ?t * S \<le> 207 * ?t \<and> 193 * ?t \<le> 2 * ?t * S" by linarith
  then have "?t * (2 * S) \<le> ?t * 207 \<and> ?t * 193 \<le> ?t * (2 * S)" by (simp add: mult.commute mult.left_commute)
  with t(2) have "2 * S \<le> 207 \<and> 193 \<le> 2 * S" by simp
  then show ?thesis unfolding rd S by linarith
qed

lemma history_empty: "history [] = ([], \<lambda>cat. 0)"
  by (simp add: history_def nonblank_lines_def js_trim_def)

lemma radar_zero: "radar tie (\<lambda>cat. 0) cat = 0"
  by (simp add: radar_def totalCatHits_def categories_def round_pct_def)

text \<open>
  C7. For every table of category counts whose total is not zero, and whatever way the
  exact halves are rounded, the seven rounded percentages add up to a number between
  \<open>100 - 7\<close> and \<open>100 + 7\<close>.
\<close>

theorem radar_rounding_slack:
  "sum_list (map cb categories) \<noteq> 0 \<Longrightarrow>
     100 - 7 \<le> sum_list (map (radar tie cb) categories) \<and>
     sum_list (map (radar tie cb) categories) \<le> 100 + 7"
  using radar_sum[of cb tie] by linarith

text \<open>The counts of the contributor example in \<^verbatim>\<open>HANDOFF.md\<close>: the percentages add up to 100.\<close>

theorem radar_rounding_slack_witness:
  "sum_list (map (case_category 245 89 12 34 8 15 (5::nat)) categories) \<noteq> 0
   \<and> map (radar (\<lambda>c t. True) (case_category 245 89 12 34 8 15 (5::nat))) categories = [60, 22, 3, 8, 2, 4, 1]
   \<and> 100 - 7 \<le> sum_list (map (radar (\<lambda>c t. True) (case_category 245 89 12 34 8 15 (5::nat))) categories)
   \<and> sum_list (map (radar (\<lambda>c t. True) (case_category 245 89 12 34 8 15 (5::nat))) categories) \<le> 100 + 7"
proof -
  have s: "sum_list (map (case_category 245 89 12 34 8 15 (5::nat)) categories) \<noteq> 0"
    by (simp add: categories_def)
  have v: "map (radar (\<lambda>c t. True) (case_category 245 89 12 34 8 15 (5::nat))) categories = [60, 22, 3, 8, 2, 4, 1]"
    by (simp add: categories_def radar_def totalCatHits_def round_pct_def)
  from radar_rounding_slack[OF s, of "\<lambda>c t. True"] s v show ?thesis by simp
qed

lemma analyse_empty:
  "git authorLog = [] \<Longrightarrow>
     focus (analyse tie c authorLog) = ''general'' \<and> (\<forall>cat. radarData (analyse tie c authorLog) cat = 0)"
  by (simp add: analyse_def history_empty radar_zero focus_of_def sort_desc_def)

text \<open>
  C6. When the \<^verbatim>\<open>git log\<close> of a contributor gives nothing, because the command fails (the
  helper then returns the empty string) or because its output is empty or blank, the
  analysis still returns a contributor: every radar percentage is 0 and the focus is
  \<^verbatim>\<open>general\<close>. The analysis is a total function; no step of it can raise.
\<close>

theorem empty_history:
  "git authorLog = [] \<Longrightarrow>
     (\<forall>cat. radarData (analyse tie c authorLog) cat = 0) \<and>
     focus (analyse tie c authorLog) = ''general''"
  using analyse_empty[of authorLog tie c] by blast

theorem empty_history_witness:
  "git None = [] \<and> git (Some '' \<newline>'') = []
   \<and> map (radarData (analyse (\<lambda>c t. True) \<lparr>commits = 3, name = ''dev''\<rparr> None)) categories
       = [0, 0, 0, 0, 0, 0, 0]
   \<and> focus (analyse (\<lambda>c t. True) \<lparr>commits = 3, name = ''dev''\<rparr> None) = ''general''
   \<and> focus (analyse (\<lambda>c t. True) \<lparr>commits = 3, name = ''dev''\<rparr> (Some '' \<newline>'')) = ''general''"
proof -
  have a: "git None = []" by (simp add: git_def)
  have b: "git (Some '' \<newline>'') = []" by (simp add: git_def js_trim_def is_space_def)
  from empty_history[OF a, of "\<lambda>c t. True" "\<lparr>commits = 3, name = ''dev''\<rparr>"]
    empty_history[OF b, of "\<lambda>c t. True" "\<lparr>commits = 3, name = ''dev''\<rparr>"] a b
  show ?thesis by (simp add: categories_def)
qed

lemma find_filter: "List.find P xs = (case filter P xs of [] \<Rightarrow> None | y # _ \<Rightarrow> Some y)"
  by (induction xs) auto

lemma sort_desc_Nil: "(sort_desc es = []) = (es = [])"
  using length_sort[of "\<lambda>e. - int (snd e)" es] unfolding sort_desc_def by (metis length_0_conv)

lemma top_entry_Nil: "top_entry [] = None"
  by (simp add: top_entry_def)

lemma top_entry_sort:
  assumes "sort_desc es = x # xs"
  shows "top_entry es = Some x"
proof -
  let ?f = "\<lambda>e::string \<times> nat. - int (snd e)"
  have S: "sort_key ?f es = x # xs" using assms by (simp add: sort_desc_def)
  have "sorted (map ?f (sort_key ?f es))" by (rule sorted_sort_key)
  then have "\<forall>y \<in> set xs. ?f x \<le> ?f y" unfolding S by simp
  moreover have sx: "set es = insert x (set xs)"
    using arg_cong[OF S, of set] by simp
  ultimately have mx: "\<forall>e \<in> set es. snd e \<le> snd x" by auto
  have xin: "x \<in> set es" using sx by simp
  have "filter (\<lambda>e. \<forall>e' \<in> set es. snd e' \<le> snd e) es = filter (\<lambda>e. ?f e = ?f x) es"
  proof (rule filter_cong[OF refl])
    fix e assume "e \<in> set es"
    with mx xin show "(\<forall>e' \<in> set es. snd e' \<le> snd e) = (?f e = ?f x)"
      by (auto simp: order.antisym)
  qed
  also have "\<dots> = filter (\<lambda>e. ?f e = ?f x) (sort_key ?f es)"
    by (rule sort_key_stable[symmetric])
  also have "\<dots> = x # filter (\<lambda>e. ?f e = ?f x) xs" unfolding S by simp
  finally show ?thesis by (simp add: top_entry_def find_filter)
qed

lemma bump_positive: "\<forall>e \<in> set m. 0 < snd e \<Longrightarrow> \<forall>e \<in> set (bump k m). 0 < snd e"
  by (induction m) (fastforce split: if_splits)+

lemma history_step_positive:
  "\<forall>e \<in> set (fst acc). 0 < snd e \<Longrightarrow> \<forall>e \<in> set (fst (history_step acc line)). 0 < snd e"
  using bump_positive by (cases acc) (auto simp: history_step_def Let_def)

lemma foldl_history_positive:
  "\<forall>e \<in> set (fst acc). 0 < snd e \<Longrightarrow> \<forall>e \<in> set (fst (foldl history_step acc ls)). 0 < snd e"
proof (induction ls arbitrary: acc)
  case Nil
  then show ?case by simp
next
  case (Cons l ls)
  from Cons.prems have "\<forall>e \<in> set (fst (history_step acc l)). 0 < snd e"
    by (rule history_step_positive)
  then have "\<forall>e \<in> set (fst (foldl history_step (history_step acc l) ls)). 0 < snd e"
    by (rule Cons.IH)
  then show ?case by simp
qed

lemma history_positive: "\<forall>e \<in> set (fst (history commitLog)). 0 < snd e"
  unfolding history_def by (rule foldl_history_positive) simp

lemma touched_iff: "\<forall>e \<in> set ft. 0 < snd e \<Longrightarrow> touched ft k = (k \<in> fst ` set ft)"
proof (cases "map_of ft k")
  case None
  then have "k \<notin> fst ` set ft" by (simp add: map_of_eq_None_iff)
  with None show ?thesis by (simp add: touched_def)
next
  case (Some n)
  then have "(k, n) \<in> set ft" by (rule map_of_SomeD)
  moreover assume "\<forall>e \<in> set ft. 0 < snd e"
  ultimately have "0 < n" "k \<in> fst ` set ft" by force+
  with Some show ?thesis by (simp add: touched_def)
qed

lemma focus_analyse: "focus (analyse tie c authorLog) = focus_of (fst (history (git authorLog)))"
  by (simp add: analyse_def split: prod.splits)

text \<open>
  C1, amended. For every contributor, with \<open>topExt\<close> the most-touched extension of the
  changed files (the first in insertion order among those with the largest count): a
  frontend extension gives \<^verbatim>\<open>frontend\<close>; \<^verbatim>\<open>.py\<close>, \<^verbatim>\<open>.go\<close>, \<^verbatim>\<open>.rs\<close>, \<^verbatim>\<open>.java\<close> give
  \<^verbatim>\<open>backend\<close>; \<^verbatim>\<open>.ts\<close> and \<^verbatim>\<open>.js\<close> give \<^verbatim>\<open>frontend\<close> when \<^verbatim>\<open>.vue\<close> or \<^verbatim>\<open>.tsx\<close> was touched
  as well and \<^verbatim>\<open>fullstack\<close> otherwise; \<^verbatim>\<open>.md\<close>, \<^verbatim>\<open>.mdx\<close>, \<^verbatim>\<open>.txt\<close> give \<^verbatim>\<open>docs\<close>; \<^verbatim>\<open>.yml\<close>,
  \<^verbatim>\<open>.yaml\<close>, \<^verbatim>\<open>.json\<close> give \<^verbatim>\<open>config/devops\<close>; anything else, and a history without any
  extension, gives \<^verbatim>\<open>general\<close>.
\<close>

theorem focus_label:
  "(top_entry (fst (history (git authorLog))) = None \<longrightarrow>
      focus (analyse tie c authorLog) = ''general'') \<and>
   (\<forall>topExt n. top_entry (fst (history (git authorLog))) = Some (topExt, n) \<longrightarrow>
      focus (analyse tie c authorLog) =
        (if topExt \<in> {''.vue'', ''.tsx'', ''.jsx'', ''.svelte'', ''.css'', ''.scss''} then ''frontend''
         else if topExt \<in> {''.py'', ''.go'', ''.rs'', ''.java''} then ''backend''
         else if topExt \<in> {''.ts'', ''.js''} then
           (if ''.vue'' \<in> fst ` set (fst (history (git authorLog))) \<or>
               ''.tsx'' \<in> fst ` set (fst (history (git authorLog)))
            then ''frontend'' else ''fullstack'')
         else if topExt \<in> {''.md'', ''.mdx'', ''.txt''} then ''docs''
         else if topExt \<in> {''.yml'', ''.yaml'', ''.json''} then ''config/devops''
         else ''general''))"
proof -
  define ft where "ft = fst (history (git authorLog))"
  have pos: "\<forall>e \<in> set ft. 0 < snd e" unfolding ft_def by (rule history_positive)
  note t = touched_iff[OF pos]
  show ?thesis
  proof (cases "sort_desc ft")
    case Nil
    then have "ft = []" by (simp add: sort_desc_Nil)
    then show ?thesis
      unfolding focus_analyse ft_def[symmetric] by (simp add: top_entry_Nil focus_of_def sort_desc_def)
  next
    case (Cons x xs)
    obtain k m where x: "x = (k, m)" by (cases x)
    from top_entry_sort[OF Cons] have te: "top_entry ft = Some (k, m)" by (simp add: x)
    show ?thesis
      unfolding focus_analyse ft_def[symmetric] te
      by (simp add: focus_of_def Cons x t)
  qed
qed

theorem focus_label_witness:
  "top_entry (fst (history (git (Some ''a1b2c3d add login\<newline>src/App.vue\<newline>src/main.ts\<newline>src/util.ts''))))
     = Some (''.ts'', 2)
   \<and> ''.vue'' \<in> fst ` set (fst (history (git (Some ''a1b2c3d add login\<newline>src/App.vue\<newline>src/main.ts\<newline>src/util.ts''))))
   \<and> focus (analyse (\<lambda>c t. True) \<lparr>commits = 1, name = ''dev''\<rparr>
        (Some ''a1b2c3d add login\<newline>src/App.vue\<newline>src/main.ts\<newline>src/util.ts'')) = ''frontend''
   \<and> top_entry (fst (history (git None))) = None
   \<and> focus (analyse (\<lambda>c t. True) \<lparr>commits = 1, name = ''dev''\<rparr> None) = ''general''"
proof -
  define L where "L = Some ''a1b2c3d add login\<newline>src/App.vue\<newline>src/main.ts\<newline>src/util.ts''"
  have h: "fst (history (git L)) = [(''.vue'', 1), (''.ts'', 2)]"
    unfolding L_def by code_simp
  have t: "top_entry (fst (history (git L))) = Some (''.ts'', 2)"
    unfolding h by (simp add: top_entry_def)
  have v: "''.vue'' \<in> fst ` set (fst (history (git L)))" unfolding h by simp
  have n: "top_entry (fst (history (git None))) = None"
    by (simp add: git_def history_empty top_entry_def)
  from focus_label[of L "\<lambda>c t. True" "\<lparr>commits = 1, name = ''dev''\<rparr>"] t v
  have "focus (analyse (\<lambda>c t. True) \<lparr>commits = 1, name = ''dev''\<rparr> L) = ''frontend''" by simp
  moreover from focus_label[of None "\<lambda>c t. True" "\<lparr>commits = 1, name = ''dev''\<rparr>"] n
  have "focus (analyse (\<lambda>c t. True) \<lparr>commits = 1, name = ''dev''\<rparr> None) = ''general''" by simp
  ultimately show ?thesis using t v n unfolding L_def by blast
qed

text \<open>
  C1 as stated fails: a history that touches only \<^verbatim>\<open>src/index.ts\<close> has the ambiguous top
  extension \<^verbatim>\<open>.ts\<close> and no frontend extension, and its focus is \<^verbatim>\<open>fullstack\<close>, not
  \<^verbatim>\<open>backend\<close>; with a \<^verbatim>\<open>.vue\<close> file beside two \<^verbatim>\<open>.ts\<close> files the focus is not \<^verbatim>\<open>fullstack\<close>.
\<close>

theorem focus_label_counterexample:
  "fst (history (git (Some ''a1b2c3d init\<newline>src/index.ts''))) = [(''.ts'', 1)]
   \<and> focus (analyse (\<lambda>c t. True) \<lparr>commits = 1, name = ''dev''\<rparr> (Some ''a1b2c3d init\<newline>src/index.ts''))
       = ''fullstack''
   \<and> focus (analyse (\<lambda>c t. True) \<lparr>commits = 1, name = ''dev''\<rparr> (Some ''a1b2c3d init\<newline>src/index.ts''))
       \<noteq> ''backend''
   \<and> fst (history (git (Some ''a1b2c3d add login\<newline>src/App.vue\<newline>src/main.ts\<newline>src/util.ts'')))
       = [(''.vue'', 1), (''.ts'', 2)]
   \<and> focus (analyse (\<lambda>c t. True) \<lparr>commits = 1, name = ''dev''\<rparr>
        (Some ''a1b2c3d add login\<newline>src/App.vue\<newline>src/main.ts\<newline>src/util.ts'')) \<noteq> ''fullstack''"
  by code_simp

section \<open>Contributors: the ten authors of the report\<close>

lemma map_filter_app: "List.map_filter f (xs @ ys) = List.map_filter f xs @ List.map_filter f ys"
  by (simp add: List.map_filter_def)

lemma length_map_filter_le: "length (List.map_filter f xs) \<le> length xs"
  by (simp add: List.map_filter_def)

lemma raw_of_analyse: "commits (analyse tie c l) = commits c \<and> name (analyse tie c l) = name c"
  by (simp add: analyse_def split: prod.splits)

text \<open>
  C9. The report has at most ten contributors. They are the analyses of the authors parsed
  from the first ten non-blank lines of the shortlog summary, with the same commit counts
  and names; the remaining lines of the summary are never analysed. When the summary is
  in descending order of commit count, as \<^verbatim>\<open>git shortlog -sn\<close> prints it, every reported
  contributor has at least as many commits as every author left out.
\<close>

theorem contributors_top10:
  "length (contributors tie shortlog authorLog) \<le> 10
   \<and> contributors tie shortlog authorLog =
       map (\<lambda>c. analyse tie c (authorLog (name c))) (contributorsRaw shortlog)
   \<and> map commits (contributors tie shortlog authorLog) = map commits (contributorsRaw shortlog)
   \<and> map name (contributors tie shortlog authorLog) = map name (contributorsRaw shortlog)
   \<and> List.map_filter shortlog_line (nonblank_lines (git shortlog)) =
       contributorsRaw shortlog @ List.map_filter shortlog_line (drop 10 (nonblank_lines (git shortlog)))
   \<and> (sorted_wrt (\<lambda>a b. commits b \<le> commits a)
         (List.map_filter shortlog_line (nonblank_lines (git shortlog))) \<longrightarrow>
       (\<forall>a \<in> set (contributors tie shortlog authorLog).
        \<forall>b \<in> set (List.map_filter shortlog_line (drop 10 (nonblank_lines (git shortlog)))).
          commits b \<le> commits a))"
proof -
  let ?ls = "nonblank_lines (git shortlog)"
  let ?rest = "List.map_filter shortlog_line (drop 10 ?ls)"
  have raw: "contributorsRaw shortlog = List.map_filter shortlog_line (take 10 ?ls)"
    by (simp add: contributorsRaw_def)
  have "length (contributorsRaw shortlog) \<le> length (take 10 ?ls)"
    unfolding raw by (rule length_map_filter_le)
  then have len: "length (contributors tie shortlog authorLog) \<le> 10"
    by (simp add: contributors_def)
  have def: "contributors tie shortlog authorLog =
       map (\<lambda>c. analyse tie c (authorLog (name c))) (contributorsRaw shortlog)"
    by (simp add: contributors_def)
  have cm: "map commits (contributors tie shortlog authorLog) = map commits (contributorsRaw shortlog)"
    by (simp add: contributors_def raw_of_analyse o_def)
  have nm: "map name (contributors tie shortlog authorLog) = map name (contributorsRaw shortlog)"
    by (simp add: contributors_def raw_of_analyse o_def)
  have split: "List.map_filter shortlog_line ?ls = contributorsRaw shortlog @ ?rest"
    unfolding raw map_filter_app[symmetric] by simp
  have top: "sorted_wrt (\<lambda>a b. commits b \<le> commits a) (List.map_filter shortlog_line ?ls) \<longrightarrow>
       (\<forall>a \<in> set (contributors tie shortlog authorLog). \<forall>b \<in> set ?rest. commits b \<le> commits a)"
  proof (intro impI ballI)
    fix a b
    assume s: "sorted_wrt (\<lambda>a b. commits b \<le> commits a) (List.map_filter shortlog_line ?ls)"
      and a: "a \<in> set (contributors tie shortlog authorLog)" and b: "b \<in> set ?rest"
    from a have "commits a \<in> set (map commits (contributors tie shortlog authorLog))" by simp
    then obtain r where r: "r \<in> set (contributorsRaw shortlog)" "commits r = commits a"
      unfolding cm by auto
    from s r(1) b have "commits b \<le> commits r"
      unfolding split by (simp add: sorted_wrt_append)
    with r(2) show "commits b \<le> commits a" by simp
  qed
  from len def cm nm split top show ?thesis by blast
qed

theorem contributors_top10_witness:
  "sorted_wrt (\<lambda>a b. commits b \<le> commits a)
     (List.map_filter shortlog_line (nonblank_lines (git (Some
        ''    40 Ann\<newline>    31 Bob\<newline>    30 Cy\<newline>    22 Di\<newline>    21 Ed\<newline>    15 Flo\<newline>    9 Gus\<newline>     8 Hal\<newline>     5 Ivy\<newline>     3 Jo\<newline>     2 Kim\<newline>''))))
   \<and> List.map_filter shortlog_line (drop 10 (nonblank_lines (git (Some
        ''    40 Ann\<newline>    31 Bob\<newline>    30 Cy\<newline>    22 Di\<newline>    21 Ed\<newline>    15 Flo\<newline>    9 Gus\<newline>     8 Hal\<newline>     5 Ivy\<newline>     3 Jo\<newline>     2 Kim\<newline>''))))
       = [\<lparr>commits = 2, name = ''Kim''\<rparr>]
   \<and> map name (contributors (\<lambda>c t. True) (Some
        ''    40 Ann\<newline>    31 Bob\<newline>    30 Cy\<newline>    22 Di\<newline>    21 Ed\<newline>    15 Flo\<newline>    9 Gus\<newline>     8 Hal\<newline>     5 Ivy\<newline>     3 Jo\<newline>     2 Kim\<newline>'')
        (\<lambda>n. None))
       = [''Ann'', ''Bob'', ''Cy'', ''Di'', ''Ed'', ''Flo'', ''Gus'', ''Hal'', ''Ivy'', ''Jo'']
   \<and> list_all (\<lambda>a. 2 \<le> commits a) (contributors (\<lambda>c t. True) (Some
        ''    40 Ann\<newline>    31 Bob\<newline>    30 Cy\<newline>    22 Di\<newline>    21 Ed\<newline>    15 Flo\<newline>    9 Gus\<newline>     8 Hal\<newline>     5 Ivy\<newline>     3 Jo\<newline>     2 Kim\<newline>'')
        (\<lambda>n. None))"
proof -
  define S where "S = Some
        ''    40 Ann\<newline>    31 Bob\<newline>    30 Cy\<newline>    22 Di\<newline>    21 Ed\<newline>    15 Flo\<newline>    9 Gus\<newline>     8 Hal\<newline>     5 Ivy\<newline>     3 Jo\<newline>     2 Kim\<newline>''"
  define A where "A = (\<lambda>n::string. None :: string option)"
  have all: "List.map_filter shortlog_line (nonblank_lines (git S)) =
      [\<lparr>commits = 40, name = ''Ann''\<rparr>, \<lparr>commits = 31, name = ''Bob''\<rparr>, \<lparr>commits = 30, name = ''Cy''\<rparr>,
       \<lparr>commits = 22, name = ''Di''\<rparr>, \<lparr>commits = 21, name = ''Ed''\<rparr>, \<lparr>commits = 15, name = ''Flo''\<rparr>,
       \<lparr>commits = 9, name = ''Gus''\<rparr>, \<lparr>commits = 8, name = ''Hal''\<rparr>, \<lparr>commits = 5, name = ''Ivy''\<rparr>,
       \<lparr>commits = 3, name = ''Jo''\<rparr>, \<lparr>commits = 2, name = ''Kim''\<rparr>]"
    unfolding S_def by code_simp
  have srt: "sorted_wrt (\<lambda>a b. commits b \<le> commits a) (List.map_filter shortlog_line (nonblank_lines (git S)))"
    unfolding all by simp
  have rest: "List.map_filter shortlog_line (drop 10 (nonblank_lines (git S))) = [\<lparr>commits = 2, name = ''Kim''\<rparr>]"
    unfolding S_def by code_simp
  have raw: "map name (contributorsRaw S) =
      [''Ann'', ''Bob'', ''Cy'', ''Di'', ''Ed'', ''Flo'', ''Gus'', ''Hal'', ''Ivy'', ''Jo'']"
    unfolding S_def by code_simp
  note T = contributors_top10[of "\<lambda>c t. True" S A]
  from T have "map name (contributors (\<lambda>c t. True) S A) = map name (contributorsRaw S)" by blast
  with raw have names: "map name (contributors (\<lambda>c t. True) S A) =
      [''Ann'', ''Bob'', ''Cy'', ''Di'', ''Ed'', ''Flo'', ''Gus'', ''Hal'', ''Ivy'', ''Jo'']" by (simp only:)
  from T srt have "\<forall>a \<in> set (contributors (\<lambda>c t. True) S A).
        \<forall>b \<in> set (List.map_filter shortlog_line (drop 10 (nonblank_lines (git S)))).
          commits b \<le> commits a" by blast
  then have "list_all (\<lambda>a. 2 \<le> commits a) (contributors (\<lambda>c t. True) S A)"
    unfolding rest list_all_iff by simp
  with srt rest names show ?thesis unfolding S_def A_def by blast
qed

section \<open>Compliance: found flags and score\<close>

lemma indicator_all: "set complianceItems = UNIV"
proof -
  have "k \<in> set complianceItems" for k by (cases k) (simp_all add: complianceItems_def)
  then show ?thesis by auto
qed

lemma indicator_distinct: "distinct complianceItems"
  by (simp add: complianceItems_def)

lemma indicator_finite: "finite (A :: indicator set)"
proof -
  have "A \<subseteq> set complianceItems" by (simp add: indicator_all)
  then show ?thesis by (rule finite_subset) simp
qed

lemma passedChecks_card: "passedChecks c = card {k. found (c k)}"
proof -
  let ?xs = "filter (\<lambda>k. found (c k)) complianceItems"
  have "distinct ?xs" using indicator_distinct by (rule distinct_filter)
  then have "card (set ?xs) = length ?xs" by (rule distinct_card)
  moreover have "set ?xs = {k. found (c k)}" by (simp add: indicator_all)
  ultimately show ?thesis by (simp add: passedChecks_def)
qed

lemma attribute_found:
  "found (attribute f r c k j) = (found (c j) \<or> (j = k \<and> attributed k f))"
  by (simp add: attribute_def)

lemma foldl_attribute_found:
  "found (foldl (attribute f r) c ks j) = (found (c j) \<or> (j \<in> set ks \<and> attributed j f))"
  by (induction ks arbitrary: c) (auto simp: attribute_found)

lemma compliance_file_found:
  "found (compliance_file rel c f j) = (found (c j) \<or> attributed j f)"
  by (simp add: compliance_file_def foldl_attribute_found indicator_all)

lemma foldl_file_found:
  "found (foldl (compliance_file rel) c fs j) = (found (c j) \<or> (\<exists>f \<in> set fs. attributed j f))"
  by (induction fs arbitrary: c) (auto simp: compliance_file_found)

lemma found_iff:
  "found (compliance_of_files rel fs k) = (\<exists>f \<in> set fs. attributed k f)"
  by (simp add: compliance_of_files_def Let_def foldl_file_found compliance_init_def)

lemma nonblank_lines_Nil: "nonblank_lines [] = []"
  by (simp add: nonblank_lines_def js_trim_def)

lemma compliance_Some:
  "compliance rel (Some out) = compliance_of_files rel (nonblank_lines (js_trim out))"
  by (cases "js_trim out = []") (simp_all add: compliance_def nonblank_lines_Nil)


lemma odd7: "(200 * p) mod 14 \<noteq> (7::nat)"
proof
  assume a: "(200 * p) mod 14 = 7"
  have "(2::nat) dvd 14" by simp
  then have "(2 dvd (200 * p) mod 14) = (2 dvd 200 * p)" by (rule dvd_mod_iff)
  then have "2 dvd (200 * p) mod 14" by simp
  with a show False by simp
qed

lemma half: "100 * real p / 7 + 1 / 2 = real (200 * p + 7) / real 14"
  by (simp add: field_simps)

lemma round_pct_7: "int (round_pct tie p 7) = round (100 * real p / 7)"
proof -
  have r: "round_pct tie p 7 = (200 * p + 7) div 14" using odd7[of p] by (simp add: round_pct_def)
  have "round (100 * real p / 7) = \<lfloor>real (200 * p + 7) / real 14\<rfloor>"
    unfolding round_def half by (rule refl)
  also have "\<dots> = int ((200 * p + 7) div 14)"
    by (rule floor_divide_of_nat_eq)
  finally show ?thesis using r by simp
qed

lemma length_complianceItems: "length complianceItems = 7"
  by (simp add: complianceItems_def)

lemma score_passed: "complianceScore tie c = round_pct tie (passedChecks c) 7"
  by (simp only: complianceScore_def length_complianceItems)

lemma score_round:
  "int (complianceScore tie c) = round (100 * real (card {k. found (c k)}) / 7)"
  by (simp only: score_passed round_pct_7 passedChecks_card)

text \<open>
  C2. The compliance score is \<open>round (100 * n / 7)\<close>, where \<open>n\<close> is the number of the seven
  indicators that are found. When the scan matches at least one file and every matched
  file has \<^verbatim>\<open>stripe\<close> or \<^verbatim>\<open>payout\<close> in its lowercased path and is attributed to no other
  indicator, the payment indicator is found, the other six are not, and the score is 14.
\<close>

theorem compliance_score_payment_only:
  "int (complianceScore tie (compliance rel grepOut)) =
     round (100 * real (card {k. found (compliance rel grepOut k)}) / 7)
   \<and> (\<forall>out. grepOut = Some out \<and> nonblank_lines (js_trim out) \<noteq> [] \<and>
         (\<forall>f \<in> set (nonblank_lines (js_trim out)).
            (str_includes (toLowerCase f) ''stripe'' \<or> str_includes (toLowerCase f) ''payout'') \<and>
            (\<forall>k. k \<noteq> PaymentCompliance \<longrightarrow> \<not> attributed k f)) \<longrightarrow>
         found (compliance rel grepOut PaymentCompliance) \<and>
         (\<forall>k. k \<noteq> PaymentCompliance \<longrightarrow> \<not> found (compliance rel grepOut k)) \<and>
         card {k. found (compliance rel grepOut k)} = 1 \<and>
         complianceScore tie (compliance rel grepOut) = 14)"
proof (intro conjI allI impI)
  show "int (complianceScore tie (compliance rel grepOut)) =
     round (100 * real (card {k. found (compliance rel grepOut k)}) / 7)"
    by (rule score_round)
next
  fix out
  assume a: "grepOut = Some out \<and> nonblank_lines (js_trim out) \<noteq> [] \<and>
         (\<forall>f \<in> set (nonblank_lines (js_trim out)).
            (str_includes (toLowerCase f) ''stripe'' \<or> str_includes (toLowerCase f) ''payout'') \<and>
            (\<forall>k. k \<noteq> PaymentCompliance \<longrightarrow> \<not> attributed k f))"
  let ?fs = "nonblank_lines (js_trim out)"
  let ?c = "compliance rel grepOut"
  from a have c: "?c = compliance_of_files rel ?fs" by (simp add: compliance_Some)
  from a obtain f where f: "f \<in> set ?fs" by (cases ?fs) auto
  with a have "attributed PaymentCompliance f" by (auto simp: attributed_def)
  with f show pay: "found (?c PaymentCompliance)" unfolding c found_iff by blast
  show others: "\<And>k. k \<noteq> PaymentCompliance \<Longrightarrow> \<not> found (?c k)"
    unfolding c found_iff using a by blast
  from pay others have "{k. found (?c k)} = {PaymentCompliance}" by auto
  then show one: "card {k. found (?c k)} = 1" by simp
  then have "passedChecks ?c = 1" by (simp add: passedChecks_card)
  then show "complianceScore tie ?c = 14" by (simp add: score_passed round_pct_def)
qed

theorem compliance_score_payment_only_witness:
  "nonblank_lines (js_trim ''./lib/stripe.js\<newline>./lib/Payout.ts\<newline>'') = [''./lib/stripe.js'', ''./lib/Payout.ts'']
   \<and> found (compliance (drop 2) (Some ''./lib/stripe.js\<newline>./lib/Payout.ts\<newline>'') PaymentCompliance)
   \<and> map (\<lambda>k. found (compliance (drop 2) (Some ''./lib/stripe.js\<newline>./lib/Payout.ts\<newline>'') k)) complianceItems
       = [False, False, False, False, False, False, True]
   \<and> complianceScore (\<lambda>c t. True) (compliance (drop 2) (Some ''./lib/stripe.js\<newline>./lib/Payout.ts\<newline>'')) = 14"
proof -
  define out where "out = ''./lib/stripe.js\<newline>./lib/Payout.ts\<newline>''"
  have fs: "nonblank_lines (js_trim out) = [''./lib/stripe.js'', ''./lib/Payout.ts'']"
    unfolding out_def by code_simp
  have a1: "str_includes (toLowerCase ''./lib/stripe.js'') ''stripe''" by code_simp
  have a2: "str_includes (toLowerCase ''./lib/Payout.ts'') ''payout''" by code_simp
  have n1: "\<not> attributed k ''./lib/stripe.js''" if "k \<noteq> PaymentCompliance" for k
    using that by (cases k) (simp_all, code_simp+)
  have n2: "\<not> attributed k ''./lib/Payout.ts''" if "k \<noteq> PaymentCompliance" for k
    using that by (cases k) (simp_all, code_simp+)
  have hyp: "Some out = Some out \<and> nonblank_lines (js_trim out) \<noteq> [] \<and>
         (\<forall>f \<in> set (nonblank_lines (js_trim out)).
            (str_includes (toLowerCase f) ''stripe'' \<or> str_includes (toLowerCase f) ''payout'') \<and>
            (\<forall>k. k \<noteq> PaymentCompliance \<longrightarrow> \<not> attributed k f))"
    unfolding fs using a1 a2 n1 n2 by simp
  note T = compliance_score_payment_only[of "\<lambda>c t. True" "drop 2" "Some out"]
  from T hyp have r: "found (compliance (drop 2) (Some out) PaymentCompliance) \<and>
         (\<forall>k. k \<noteq> PaymentCompliance \<longrightarrow> \<not> found (compliance (drop 2) (Some out) k)) \<and>
         complianceScore (\<lambda>c t. True) (compliance (drop 2) (Some out)) = 14" by blast
  then have "map (\<lambda>k. found (compliance (drop 2) (Some out) k)) complianceItems
       = [False, False, False, False, False, False, True]"
    by (simp add: complianceItems_def)
  with r fs show ?thesis unfolding out_def by blast
qed

text \<open>
  C8, amended. Adding a matched file \<open>f\<close> anywhere in the list of matched files raises the
  number of found indicators by the number of indicators that \<open>f\<close> is attributed to and
  that were not found before; no found flag is ever lost. When there is exactly one such
  indicator the number rises by exactly 1 and the score is \<open>round (100 * (n + 1) / 7)\<close>;
  when every indicator of \<open>f\<close> was found already, no flag and not the score changes.
\<close>

theorem compliance_monotone:
  "passedChecks (compliance_of_files rel (xs @ f # ys)) =
     passedChecks (compliance_of_files rel (xs @ ys)) +
     card {k. attributed k f \<and> \<not> found (compliance_of_files rel (xs @ ys) k)}
   \<and> (\<forall>k. found (compliance_of_files rel (xs @ f # ys) k) =
            (found (compliance_of_files rel (xs @ ys) k) \<or> attributed k f))
   \<and> (\<forall>k. attributed k f \<and> \<not> found (compliance_of_files rel (xs @ ys) k) \<and>
            (\<forall>j. attributed j f \<and> \<not> found (compliance_of_files rel (xs @ ys) j) \<longrightarrow> j = k) \<longrightarrow>
          passedChecks (compliance_of_files rel (xs @ f # ys)) =
            passedChecks (compliance_of_files rel (xs @ ys)) + 1 \<and>
          int (complianceScore tie (compliance_of_files rel (xs @ f # ys))) =
            round (100 * (real (passedChecks (compliance_of_files rel (xs @ ys))) + 1) / 7))
   \<and> ((\<forall>k. attributed k f \<longrightarrow> found (compliance_of_files rel (xs @ ys) k)) \<longrightarrow>
          (\<forall>k. found (compliance_of_files rel (xs @ f # ys) k) =
                found (compliance_of_files rel (xs @ ys) k)) \<and>
          complianceScore tie (compliance_of_files rel (xs @ f # ys)) =
            complianceScore tie (compliance_of_files rel (xs @ ys)))"
proof -
  let ?c = "compliance_of_files rel (xs @ ys)"
  let ?c' = "compliance_of_files rel (xs @ f # ys)"
  let ?N = "{k. attributed k f \<and> \<not> found (?c k)}"
  have fl: "\<And>k. found (?c' k) = (found (?c k) \<or> attributed k f)"
    unfolding found_iff by auto
  have "{k. found (?c' k)} = {k. found (?c k)} \<union> ?N" using fl by auto
  moreover have "{k. found (?c k)} \<inter> ?N = {}" by auto
  ultimately have "card {k. found (?c' k)} = card {k. found (?c k)} + card ?N"
    by (simp add: card_Un_disjoint indicator_finite)
  then have cnt: "passedChecks ?c' = passedChecks ?c + card ?N"
    by (simp only: passedChecks_card)
  have one: "passedChecks ?c' = passedChecks ?c + 1 \<and>
          int (complianceScore tie ?c') = round (100 * (real (passedChecks ?c) + 1) / 7)"
    if k: "attributed k f \<and> \<not> found (?c k) \<and> (\<forall>j. attributed j f \<and> \<not> found (?c j) \<longrightarrow> j = k)" for k
  proof -
    from k have "?N = {k}" by auto
    with cnt have p: "passedChecks ?c' = passedChecks ?c + 1" by simp
    have "int (complianceScore tie ?c') = round (100 * real (passedChecks ?c + 1) / 7)"
      by (simp only: score_passed round_pct_7 p)
    with p show ?thesis by (simp add: add.commute)
  qed
  have none: "(\<forall>k. found (?c' k) = found (?c k)) \<and> complianceScore tie ?c' = complianceScore tie ?c"
    if a: "\<forall>k. attributed k f \<longrightarrow> found (?c k)"
  proof -
    from a have "?N = {}" by auto
    with cnt have "passedChecks ?c' = passedChecks ?c" by simp
    then have "complianceScore tie ?c' = complianceScore tie ?c" by (simp add: score_passed)
    moreover from a fl have "\<forall>k. found (?c' k) = found (?c k)" by blast
    ultimately show ?thesis by blast
  qed
  from cnt fl one none show ?thesis by blast
qed

theorem compliance_monotone_witness:
  "attributed ReportingMechanism ''./src/report.ts''
   \<and> \<not> found (compliance_of_files (drop 2) [''./src/stripe.ts''] ReportingMechanism)
   \<and> passedChecks (compliance_of_files (drop 2) [''./src/stripe.ts'']) = 1
   \<and> passedChecks (compliance_of_files (drop 2) [''./src/stripe.ts'', ''./src/report.ts'']) = 2
   \<and> complianceScore (\<lambda>c t. True) (compliance_of_files (drop 2) [''./src/stripe.ts'', ''./src/report.ts'']) = 29
   \<and> passedChecks (compliance_of_files (drop 2) [''./src/stripe.ts'', ''./src/stripe.ts'']) = 1
   \<and> complianceScore (\<lambda>c t. True) (compliance_of_files (drop 2) [''./src/stripe.ts'', ''./src/stripe.ts'']) = 14"
proof -
  have p1: "passedChecks (compliance_of_files (drop 2) [''./src/stripe.ts'']) = 1" by code_simp
  have s1: "complianceScore (\<lambda>c t. True) (compliance_of_files (drop 2) [''./src/stripe.ts'']) = 14" by code_simp
  have a: "attributed ReportingMechanism ''./src/report.ts''" by code_simp
  have nf: "\<not> found (compliance_of_files (drop 2) [''./src/stripe.ts''] ReportingMechanism)" by code_simp
  have only: "\<forall>j. attributed j ''./src/report.ts'' \<and>
      \<not> found (compliance_of_files (drop 2) [''./src/stripe.ts''] j) \<longrightarrow> j = ReportingMechanism"
  proof (intro allI impI)
    fix j assume "attributed j ''./src/report.ts'' \<and> \<not> found (compliance_of_files (drop 2) [''./src/stripe.ts''] j)"
    then have "attributed j ''./src/report.ts''" by blast
    then show "j = ReportingMechanism" by (cases j) (simp_all, code_simp+)
  qed
  have dup: "\<forall>k. attributed k ''./src/stripe.ts'' \<longrightarrow> found (compliance_of_files (drop 2) [''./src/stripe.ts''] k)"
    by (simp add: found_iff)
  note T1 = compliance_monotone[of "drop 2" "[''./src/stripe.ts'']" "''./src/report.ts''" "[]" "\<lambda>c t. True",
      unfolded append.simps]
  note T2 = compliance_monotone[of "drop 2" "[''./src/stripe.ts'']" "''./src/stripe.ts''" "[]" "\<lambda>c t. True",
      unfolded append.simps]
  note one = T1[THEN conjunct2, THEN conjunct2, THEN conjunct1, THEN spec[where x = ReportingMechanism],
      THEN mp, OF conjI[OF a conjI[OF nf only]], THEN conjunct1]
  note same = T2[THEN conjunct2, THEN conjunct2, THEN conjunct2, THEN mp, OF dup, THEN conjunct2]
  from one p1 have p2: "passedChecks (compliance_of_files (drop 2) [''./src/stripe.ts'', ''./src/report.ts'']) = 2"
    by (simp only:)
  then have s2: "complianceScore (\<lambda>c t. True) (compliance_of_files (drop 2) [''./src/stripe.ts'', ''./src/report.ts'']) = 29"
    by (simp only: score_passed) (simp add: round_pct_def)
  from same s1 have s3: "complianceScore (\<lambda>c t. True) (compliance_of_files (drop 2) [''./src/stripe.ts'', ''./src/stripe.ts'']) = 14"
    by (simp only:)
  have "{k. attributed k ''./src/stripe.ts'' \<and>
      \<not> found (compliance_of_files (drop 2) [''./src/stripe.ts''] k)} = {}"
    using dup by blast
  with T2[THEN conjunct1] p1
  have p3: "passedChecks (compliance_of_files (drop 2) [''./src/stripe.ts'', ''./src/stripe.ts'']) = 1"
    by (simp only: card.empty)
  from a nf p1 p2 s2 p3 s3 show ?thesis by (intro conjI)
qed

text \<open>
  C8 as stated fails: \<^verbatim>\<open>kyc_report.ts\<close> is attributed to identity verification, which was not
  found before, and adding it raises the number of found indicators by 2, because it is
  attributed to the reporting mechanism too.
\<close>

theorem compliance_monotone_counterexample:
  "attributed IdentityVerification ''./src/kyc_report.ts''
   \<and> \<not> found (compliance_of_files (drop 2) [''./src/stripe.ts''] IdentityVerification)
   \<and> passedChecks (compliance_of_files (drop 2) [''./src/stripe.ts'']) = 1
   \<and> passedChecks (compliance_of_files (drop 2) [''./src/stripe.ts'', ''./src/kyc_report.ts'']) = 3"
  by code_simp

section \<open>Dead code: unused components\<close>

lemma startsWith_iff: "startsWith s p = (\<exists>b. s = p @ b)"
proof
  assume "startsWith s p"
  then have "s = p @ drop (length p) s" unfolding startsWith_def by (metis append_take_drop_id)
  then show "\<exists>b. s = p @ b" ..
next
  assume "\<exists>b. s = p @ b" then show "startsWith s p" by (auto simp: startsWith_def)
qed

lemma str_includes_iff: "str_includes s p = (\<exists>a b. s = a @ p @ b)"
proof (induction s)
  case Nil
  show ?case by auto
next
  case (Cons c cs)
  show ?case
  proof
    assume "str_includes (c # cs) p"
    then consider "startsWith (c # cs) p" | "str_includes cs p" by auto
    then show "\<exists>a b. c # cs = a @ p @ b"
    proof cases
      case 1
      then obtain b where "c # cs = p @ b" unfolding startsWith_iff ..
      then have "c # cs = [] @ p @ b" by simp
      then show ?thesis by blast
    next
      case 2
      with Cons.IH obtain a b where "cs = a @ p @ b" by blast
      then have "c # cs = (c # a) @ p @ b" by simp
      then show ?thesis by blast
    qed
  next
    assume "\<exists>a b. c # cs = a @ p @ b"
    then obtain a b where ab: "c # cs = a @ p @ b" by blast
    show "str_includes (c # cs) p"
    proof (cases a)
      case Nil
      with ab have "startsWith (c # cs) p" unfolding startsWith_iff by auto
      then show ?thesis by simp
    next
      case (Cons x a')
      with ab have "cs = a' @ p @ b" by simp
      with Cons.IH have "str_includes cs p" by blast
      then show ?thesis by simp
    qed
  qed
qed

lemma component_step_eq:
  "component_step rel u acc f =
     (if unused_candidate rel u f then acc @ [component_finding rel f] else acc)"
  by (auto simp: component_step_def unused_candidate_def component_finding_def Let_def)

lemma foldl_component_step:
  "foldl (component_step rel u) acc fs = acc @ map (component_finding rel) (filter (unused_candidate rel u) fs)"
  by (induction fs arbitrary: acc) (simp_all add: component_step_eq)

lemma finding_determines:
  "component_finding rel f = component_finding rel g \<Longrightarrow> unused_candidate rel u f = unused_candidate rel u g"
  by (simp add: component_finding_def unused_candidate_def)

text \<open>
  C4, amended. A candidate passes the test when it passes the skip-list (its component
  name is not \<^verbatim>\<open>index\<close> in any letter case, its relative path contains neither \<^verbatim>\<open>/pages/\<close> nor
  \<^verbatim>\<open>/layouts/\<close>) and neither its name nor the kebab-case form of the name is a substring of
  the usage index. The reported findings are the first 25 candidates, in scan order, that
  pass the test: every reported candidate passes it, and when at most 25 candidates pass
  it a candidate is reported if and only if it passes it.
\<close>

theorem unused_components_reported:
  "unused_candidate rel allUsages g =
     (toLowerCase (basename_noext g) \<noteq> ''index'' \<and>
      (\<nexists>a b. rel g = a @ ''/pages/'' @ b) \<and> (\<nexists>a b. rel g = a @ ''/layouts/'' @ b) \<and>
      (\<nexists>a b. allUsages = a @ basename_noext g @ b) \<and>
      (\<nexists>a b. allUsages = a @ kebab (basename_noext g) @ b))
   \<and> unusedComponents rel (Some findOut) grepOut =
     take 25 (map (component_finding rel)
       (filter (unused_candidate rel (case grepOut of None \<Rightarrow> [] | Some u \<Rightarrow> u)) (nonblank_lines findOut)))
   \<and> (\<forall>f \<in> set (nonblank_lines findOut).
         component_finding rel f \<in> set (unusedComponents rel (Some findOut) grepOut) \<longrightarrow>
         unused_candidate rel (case grepOut of None \<Rightarrow> [] | Some u \<Rightarrow> u) f)
   \<and> (length (filter (unused_candidate rel (case grepOut of None \<Rightarrow> [] | Some u \<Rightarrow> u))
         (nonblank_lines findOut)) \<le> 25 \<longrightarrow>
       (\<forall>f \<in> set (nonblank_lines findOut).
          (component_finding rel f \<in> set (unusedComponents rel (Some findOut) grepOut)) =
          unused_candidate rel (case grepOut of None \<Rightarrow> [] | Some u \<Rightarrow> u) f))"
proof -
  let ?u = "case grepOut of None \<Rightarrow> [] | Some u \<Rightarrow> u"
  let ?fs = "nonblank_lines findOut"
  let ?all = "map (component_finding rel) (filter (unused_candidate rel ?u) ?fs)"
  have eq: "unusedComponents rel (Some findOut) grepOut = take 25 ?all"
    by (simp add: unusedComponents_def Let_def foldl_component_step)
  have sound: "unused_candidate rel ?u f"
    if "component_finding rel f \<in> set (unusedComponents rel (Some findOut) grepOut)" for f
  proof -
    from that have "component_finding rel f \<in> set ?all"
      unfolding eq using set_take_subset[of 25 ?all] by blast
    then obtain g where "unused_candidate rel ?u g" "component_finding rel f = component_finding rel g"
      by auto
    then show ?thesis using finding_determines[of rel f g ?u] by simp
  qed
  have complete: "component_finding rel f \<in> set (unusedComponents rel (Some findOut) grepOut)"
    if "length (filter (unused_candidate rel ?u) ?fs) \<le> 25" "f \<in> set ?fs" "unused_candidate rel ?u f" for f
  proof -
    from that(1) have "take 25 ?all = ?all" by simp
    with that(2,3) show ?thesis unfolding eq by simp
  qed
  have sub: "unused_candidate rel allUsages g =
     (toLowerCase (basename_noext g) \<noteq> ''index'' \<and>
      (\<nexists>a b. rel g = a @ ''/pages/'' @ b) \<and> (\<nexists>a b. rel g = a @ ''/layouts/'' @ b) \<and>
      (\<nexists>a b. allUsages = a @ basename_noext g @ b) \<and>
      (\<nexists>a b. allUsages = a @ kebab (basename_noext g) @ b))"
    by (simp only: unused_candidate_def str_includes_iff)
  from sub eq sound complete show ?thesis by blast
qed

theorem unused_components_reported_witness:
  "nonblank_lines ''./src/components/FooBar.vue\<newline>./src/components/index.vue\<newline>./src/components/BazQux.vue\<newline>./src/components/Zed.vue\<newline>''
     = [''./src/components/FooBar.vue'', ''./src/components/index.vue'', ''./src/components/BazQux.vue'',
        ''./src/components/Zed.vue'']
   \<and> filter (unused_candidate (drop 2) ''import FooBar from x\<newline><baz-qux />'')
       [''./src/components/FooBar.vue'', ''./src/components/index.vue'', ''./src/components/BazQux.vue'',
        ''./src/components/Zed.vue''] = [''./src/components/Zed.vue'']
   \<and> component_finding (drop 2) ''./src/components/Zed.vue''
       \<in> set (unusedComponents (drop 2)
           (Some ''./src/components/FooBar.vue\<newline>./src/components/index.vue\<newline>./src/components/BazQux.vue\<newline>./src/components/Zed.vue\<newline>'')
           (Some ''import FooBar from x\<newline><baz-qux />''))
   \<and> component_finding (drop 2) ''./src/components/BazQux.vue''
       \<notin> set (unusedComponents (drop 2)
           (Some ''./src/components/FooBar.vue\<newline>./src/components/index.vue\<newline>./src/components/BazQux.vue\<newline>./src/components/Zed.vue\<newline>'')
           (Some ''import FooBar from x\<newline><baz-qux />''))"
proof -
  define out where "out = ''./src/components/FooBar.vue\<newline>./src/components/index.vue\<newline>./src/components/BazQux.vue\<newline>./src/components/Zed.vue\<newline>''"
  define u where "u = ''import FooBar from x\<newline><baz-qux />''"
  have fs: "nonblank_lines out = [''./src/components/FooBar.vue'', ''./src/components/index.vue'',
        ''./src/components/BazQux.vue'', ''./src/components/Zed.vue'']"
    unfolding out_def by code_simp
  have fl: "filter (unused_candidate (drop 2) u)
       [''./src/components/FooBar.vue'', ''./src/components/index.vue'', ''./src/components/BazQux.vue'',
        ''./src/components/Zed.vue''] = [''./src/components/Zed.vue'']"
    unfolding u_def by code_simp
  have z: "unused_candidate (drop 2) u ''./src/components/Zed.vue''"
    unfolding u_def by code_simp
  have b: "\<not> unused_candidate (drop 2) u ''./src/components/BazQux.vue''"
    unfolding u_def by code_simp
  note T = unused_components_reported[of "drop 2" u "[]" out "Some u", unfolded option.case fs]
  from fl have le: "length (filter (unused_candidate (drop 2) u)
       [''./src/components/FooBar.vue'', ''./src/components/index.vue'', ''./src/components/BazQux.vue'',
        ''./src/components/Zed.vue'']) \<le> 25" by (simp only:) simp
  note iff = T[THEN conjunct2, THEN conjunct2, THEN conjunct2, THEN mp, OF le]
  have zin: "''./src/components/Zed.vue'' \<in> set [''./src/components/FooBar.vue'',
        ''./src/components/index.vue'', ''./src/components/BazQux.vue'', ''./src/components/Zed.vue'']"
    by simp
  have bin: "''./src/components/BazQux.vue'' \<in> set [''./src/components/FooBar.vue'',
        ''./src/components/index.vue'', ''./src/components/BazQux.vue'', ''./src/components/Zed.vue'']"
    by simp
  from iff[THEN bspec, OF zin] z
  have r1: "component_finding (drop 2) ''./src/components/Zed.vue''
       \<in> set (unusedComponents (drop 2) (Some out) (Some u))" by (simp only:)
  from iff[THEN bspec, OF bin] b
  have r2: "component_finding (drop 2) ''./src/components/BazQux.vue''
       \<notin> set (unusedComponents (drop 2) (Some out) (Some u))" by blast
  from fs fl r1 r2 show ?thesis unfolding out_def u_def by (intro conjI)
qed

text \<open>
  C4 as stated fails: of 26 components that all pass the test (the usage index is empty)
  the 26th is not reported.
\<close>

theorem unused_components_reported_counterexample:
  "''./src/components/Cz.vue'' \<in> set (nonblank_lines ''./src/components/Ca.vue\<newline>./src/components/Cb.vue\<newline>./src/components/Cc.vue\<newline>./src/components/Cd.vue\<newline>./src/components/Ce.vue\<newline>./src/components/Cf.vue\<newline>./src/components/Cg.vue\<newline>./src/components/Ch.vue\<newline>./src/components/Ci.vue\<newline>./src/components/Cj.vue\<newline>./src/components/Ck.vue\<newline>./src/components/Cl.vue\<newline>./src/components/Cm.vue\<newline>./src/components/Cn.vue\<newline>./src/components/Co.vue\<newline>./src/components/Cp.vue\<newline>./src/components/Cq.vue\<newline>./src/components/Cr.vue\<newline>./src/components/Cs.vue\<newline>./src/components/Ct.vue\<newline>./src/components/Cu.vue\<newline>./src/components/Cv.vue\<newline>./src/components/Cw.vue\<newline>./src/components/Cx.vue\<newline>./src/components/Cy.vue\<newline>./src/components/Cz.vue\<newline>'')
   \<and> unused_candidate (drop 2) [] ''./src/components/Cz.vue''
   \<and> length (unusedComponents (drop 2) (Some ''./src/components/Ca.vue\<newline>./src/components/Cb.vue\<newline>./src/components/Cc.vue\<newline>./src/components/Cd.vue\<newline>./src/components/Ce.vue\<newline>./src/components/Cf.vue\<newline>./src/components/Cg.vue\<newline>./src/components/Ch.vue\<newline>./src/components/Ci.vue\<newline>./src/components/Cj.vue\<newline>./src/components/Ck.vue\<newline>./src/components/Cl.vue\<newline>./src/components/Cm.vue\<newline>./src/components/Cn.vue\<newline>./src/components/Co.vue\<newline>./src/components/Cp.vue\<newline>./src/components/Cq.vue\<newline>./src/components/Cr.vue\<newline>./src/components/Cs.vue\<newline>./src/components/Ct.vue\<newline>./src/components/Cu.vue\<newline>./src/components/Cv.vue\<newline>./src/components/Cw.vue\<newline>./src/components/Cx.vue\<newline>./src/components/Cy.vue\<newline>./src/components/Cz.vue\<newline>'') (Some [])) = 25
   \<and> component_finding (drop 2) ''./src/components/Cz.vue''
       \<notin> set (unusedComponents (drop 2) (Some ''./src/components/Ca.vue\<newline>./src/components/Cb.vue\<newline>./src/components/Cc.vue\<newline>./src/components/Cd.vue\<newline>./src/components/Ce.vue\<newline>./src/components/Cf.vue\<newline>./src/components/Cg.vue\<newline>./src/components/Ch.vue\<newline>./src/components/Ci.vue\<newline>./src/components/Cj.vue\<newline>./src/components/Ck.vue\<newline>./src/components/Cl.vue\<newline>./src/components/Cm.vue\<newline>./src/components/Cn.vue\<newline>./src/components/Co.vue\<newline>./src/components/Cp.vue\<newline>./src/components/Cq.vue\<newline>./src/components/Cr.vue\<newline>./src/components/Cs.vue\<newline>./src/components/Ct.vue\<newline>./src/components/Cu.vue\<newline>./src/components/Cv.vue\<newline>./src/components/Cw.vue\<newline>./src/components/Cx.vue\<newline>./src/components/Cy.vue\<newline>./src/components/Cz.vue\<newline>'') (Some []))"
  by code_simp

section \<open>Dead code: the bounds of the three scans\<close>

lemma export_step_length: "length (export_step ai r fn b acc e) \<le> length acc + 1"
  by (simp add: export_step_def split: option.splits)

lemma foldl_export_step_length:
  "length (foldl (export_step ai r fn b) acc es) \<le> length acc + length es"
proof (induction es arbitrary: acc)
  case Nil
  show ?case by simp
next
  case (Cons e es)
  have "length (foldl (export_step ai r fn b) (export_step ai r fn b acc e) es)
      \<le> length (export_step ai r fn b acc e) + length es" by (rule Cons.IH)
  with export_step_length[of ai r fn b acc e] show ?case by simp
qed

lemma export_file_step_length: "length (export_file_step rel rd ai acc f) \<le> length acc + 5"
proof -
  have "length (foldl (export_step ai r fn b) acc (take 5 es)) \<le> length acc + 5" for r fn b es
    using foldl_export_step_length[of ai r fn b acc "take 5 es"] by simp
  then show ?thesis by (simp add: export_file_step_def Let_def split: option.splits)
qed

text \<open>
  C10. Whatever the tree looks like, at most 25 unused components, at most 20 unused
  exports and at most 20 orphaned files are reported. The export scan reads the first 30
  candidate files only (two listings that agree on their first 30 files give the same
  findings), and in a file the first five export matches only: a file adds at most five
  findings, and two contents that agree on their first five matches add the same ones.
\<close>

theorem dead_code_bounds:
  "length (unusedComponents rel componentsOut usagesOut) \<le> 25
   \<and> length (unusedExports rel rd tsOut importsOut) \<le> 20
   \<and> length (unusedFiles rel srcOut refsOut) \<le> 20
   \<and> (take 30 (nonblank_lines out1) = take 30 (nonblank_lines out2) \<longrightarrow>
        unusedExports rel rd (Some out1) importsOut = unusedExports rel rd (Some out2) importsOut)
   \<and> length (export_file_step rel rd allImports acc f) \<le> length acc + 5
   \<and> (take 5 (exportMatches content1) = take 5 (exportMatches content2) \<longrightarrow>
        export_file_step rel (\<lambda>p. Some content1) allImports acc f =
        export_file_step rel (\<lambda>p. Some content2) allImports acc f)"
proof (intro conjI impI)
  show "length (unusedComponents rel componentsOut usagesOut) \<le> 25"
    by (simp add: unusedComponents_def Let_def split: option.splits)
  show "length (unusedExports rel rd tsOut importsOut) \<le> 20"
    by (simp add: unusedExports_def Let_def split: option.splits)
  show "length (unusedFiles rel srcOut refsOut) \<le> 20"
    by (simp add: unusedFiles_def Let_def split: option.splits)
  show "length (export_file_step rel rd allImports acc f) \<le> length acc + 5"
    by (rule export_file_step_length)
next
  assume "take 30 (nonblank_lines out1) = take 30 (nonblank_lines out2)"
  then show "unusedExports rel rd (Some out1) importsOut = unusedExports rel rd (Some out2) importsOut"
    by (simp add: unusedExports_def Let_def)
next
  assume "take 5 (exportMatches content1) = take 5 (exportMatches content2)"
  then show "export_file_step rel (\<lambda>p. Some content1) allImports acc f =
        export_file_step rel (\<lambda>p. Some content2) allImports acc f"
    by (simp add: export_file_step_def Let_def)
qed

theorem dead_code_bounds_witness:
  "take 30 (nonblank_lines ''a.ts\<newline>b.ts\<newline>c.ts\<newline>d.ts\<newline>e.ts\<newline>f.ts\<newline>g.ts\<newline>h.ts\<newline>i.ts\<newline>j.ts\<newline>k.ts\<newline>l.ts\<newline>m.ts\<newline>n.ts\<newline>o.ts\<newline>p.ts\<newline>q.ts\<newline>r.ts\<newline>s.ts\<newline>t.ts\<newline>u.ts\<newline>v.ts\<newline>w.ts\<newline>x.ts\<newline>y.ts\<newline>z.ts\<newline>A.ts\<newline>B.ts\<newline>C.ts\<newline>D.ts\<newline>E.ts\<newline>'') = take 30 (nonblank_lines ''a.ts\<newline>b.ts\<newline>c.ts\<newline>d.ts\<newline>e.ts\<newline>f.ts\<newline>g.ts\<newline>h.ts\<newline>i.ts\<newline>j.ts\<newline>k.ts\<newline>l.ts\<newline>m.ts\<newline>n.ts\<newline>o.ts\<newline>p.ts\<newline>q.ts\<newline>r.ts\<newline>s.ts\<newline>t.ts\<newline>u.ts\<newline>v.ts\<newline>w.ts\<newline>x.ts\<newline>y.ts\<newline>z.ts\<newline>A.ts\<newline>B.ts\<newline>C.ts\<newline>D.ts\<newline>'')
   \<and> length (nonblank_lines ''a.ts\<newline>b.ts\<newline>c.ts\<newline>d.ts\<newline>e.ts\<newline>f.ts\<newline>g.ts\<newline>h.ts\<newline>i.ts\<newline>j.ts\<newline>k.ts\<newline>l.ts\<newline>m.ts\<newline>n.ts\<newline>o.ts\<newline>p.ts\<newline>q.ts\<newline>r.ts\<newline>s.ts\<newline>t.ts\<newline>u.ts\<newline>v.ts\<newline>w.ts\<newline>x.ts\<newline>y.ts\<newline>z.ts\<newline>A.ts\<newline>B.ts\<newline>C.ts\<newline>D.ts\<newline>E.ts\<newline>'') = 31
   \<and> unusedExports (drop 2) (\<lambda>p. Some ''export const alpha = 1'') (Some ''a.ts\<newline>b.ts\<newline>c.ts\<newline>d.ts\<newline>e.ts\<newline>f.ts\<newline>g.ts\<newline>h.ts\<newline>i.ts\<newline>j.ts\<newline>k.ts\<newline>l.ts\<newline>m.ts\<newline>n.ts\<newline>o.ts\<newline>p.ts\<newline>q.ts\<newline>r.ts\<newline>s.ts\<newline>t.ts\<newline>u.ts\<newline>v.ts\<newline>w.ts\<newline>x.ts\<newline>y.ts\<newline>z.ts\<newline>A.ts\<newline>B.ts\<newline>C.ts\<newline>D.ts\<newline>E.ts\<newline>'') (Some [])
       = unusedExports (drop 2) (\<lambda>p. Some ''export const alpha = 1'') (Some ''a.ts\<newline>b.ts\<newline>c.ts\<newline>d.ts\<newline>e.ts\<newline>f.ts\<newline>g.ts\<newline>h.ts\<newline>i.ts\<newline>j.ts\<newline>k.ts\<newline>l.ts\<newline>m.ts\<newline>n.ts\<newline>o.ts\<newline>p.ts\<newline>q.ts\<newline>r.ts\<newline>s.ts\<newline>t.ts\<newline>u.ts\<newline>v.ts\<newline>w.ts\<newline>x.ts\<newline>y.ts\<newline>z.ts\<newline>A.ts\<newline>B.ts\<newline>C.ts\<newline>D.ts\<newline>'') (Some [])
   \<and> length (exportMatches ''export const a1 = 1; export const a2 = 1; export const a3 = 1; export const a4 = 1; export const a5 = 1; export const a6 = 1'') = 6
   \<and> export_file_step (drop 2) (\<lambda>p. Some ''export const a1 = 1; export const a2 = 1; export const a3 = 1; export const a4 = 1; export const a5 = 1; export const a6 = 1'') [] [] ''./src/lib.ts''
       = export_file_step (drop 2) (\<lambda>p. Some ''export const a1 = 1; export const a2 = 1; export const a3 = 1; export const a4 = 1; export const a5 = 1'') [] [] ''./src/lib.ts''
   \<and> length (export_file_step (drop 2) (\<lambda>p. Some ''export const a1 = 1; export const a2 = 1; export const a3 = 1; export const a4 = 1; export const a5 = 1; export const a6 = 1'') [] [] ''./src/lib.ts'') \<le> 5"
proof -
  define l31 where "l31 = ''a.ts\<newline>b.ts\<newline>c.ts\<newline>d.ts\<newline>e.ts\<newline>f.ts\<newline>g.ts\<newline>h.ts\<newline>i.ts\<newline>j.ts\<newline>k.ts\<newline>l.ts\<newline>m.ts\<newline>n.ts\<newline>o.ts\<newline>p.ts\<newline>q.ts\<newline>r.ts\<newline>s.ts\<newline>t.ts\<newline>u.ts\<newline>v.ts\<newline>w.ts\<newline>x.ts\<newline>y.ts\<newline>z.ts\<newline>A.ts\<newline>B.ts\<newline>C.ts\<newline>D.ts\<newline>E.ts\<newline>''"
  define l30 where "l30 = ''a.ts\<newline>b.ts\<newline>c.ts\<newline>d.ts\<newline>e.ts\<newline>f.ts\<newline>g.ts\<newline>h.ts\<newline>i.ts\<newline>j.ts\<newline>k.ts\<newline>l.ts\<newline>m.ts\<newline>n.ts\<newline>o.ts\<newline>p.ts\<newline>q.ts\<newline>r.ts\<newline>s.ts\<newline>t.ts\<newline>u.ts\<newline>v.ts\<newline>w.ts\<newline>x.ts\<newline>y.ts\<newline>z.ts\<newline>A.ts\<newline>B.ts\<newline>C.ts\<newline>D.ts\<newline>''"
  define c6 where "c6 = ''export const a1 = 1; export const a2 = 1; export const a3 = 1; export const a4 = 1; export const a5 = 1; export const a6 = 1''"
  define c5 where "c5 = ''export const a1 = 1; export const a2 = 1; export const a3 = 1; export const a4 = 1; export const a5 = 1''"
  have h30: "take 30 (nonblank_lines l31) = take 30 (nonblank_lines l30)"
    unfolding l31_def l30_def by code_simp
  have n31: "length (nonblank_lines l31) = 31" unfolding l31_def by code_simp
  have m6: "length (exportMatches c6) = 6" unfolding c6_def by code_simp
  have h5: "take 5 (exportMatches c6) = take 5 (exportMatches c5)" unfolding c6_def c5_def by code_simp
  note T = dead_code_bounds[of "drop 2" None None "\<lambda>p. Some ''export const alpha = 1''" None "Some []" None None
      l31 l30 "[]" "[]" "''./src/lib.ts''" c6 c5]
  note files = T[THEN conjunct2, THEN conjunct2, THEN conjunct2, THEN conjunct1, THEN mp, OF h30]
  note exports = T[THEN conjunct2, THEN conjunct2, THEN conjunct2, THEN conjunct2, THEN conjunct2, THEN mp, OF h5]
  note T2 = dead_code_bounds[of "drop 2" None None "\<lambda>p. Some c6" None "Some []" None None
      l31 l30 "[]" "[]" "''./src/lib.ts''" c6 c5]
  from T2 have len: "length (export_file_step (drop 2) (\<lambda>p. Some c6) [] [] ''./src/lib.ts'') \<le> 5"
    by simp
  from h30 n31 files m6 exports len show ?thesis unfolding c6_def c5_def l31_def l30_def by (intro conjI)
qed

section \<open>A run: exits and degraded steps\<close>













end
